theory Spec2Isabelle
  imports Main
begin

section \<open>The movieme player: data\<close>

text \<open>
  The repository is a React application: \<^verbatim>\<open>src/App.tsx\<close> fetches the clip list and
  mounts the component \<^verbatim>\<open>MoviePlayer\<close> with the props \<^verbatim>\<open>videos\<close> and
  \<^verbatim>\<open>isFirstVisit\<close> (the file with \<^verbatim>\<open>MoviePlayerProps\<close>); a second file holds a
  stand-alone variant of \<^verbatim>\<open>MoviePlayer\<close> that fetches the list itself. The two players
  share their handlers word for word, so one embedding serves both, with a
  \<open>variant\<close> where they differ.

  The browser's \<^verbatim>\<open>localStorage\<close> is a partial map from keys to strings
  (\<^verbatim>\<open>getItem\<close> of a missing key is \<^verbatim>\<open>null\<close>, here \<open>None\<close>).
\<close>

type_synonym localStorage = "string \<rightharpoonup> string"

record Video =
  video_id :: int
  url :: string
  title :: string

datatype direction = Prev | Next

datatype key = ArrowLeft | ArrowRight | Space | OtherKey

datatype error = TypeError | NotAllowedError

text \<open>
  What the component does to the \<^verbatim>\<open><video>\<close> element is recorded in a log, oldest
  entry first: the element is created (with its \<^verbatim>\<open>src\<close>, its \<^verbatim>\<open>muted\<close> property and the
  \<^verbatim>\<open>autoPlay\<close> attribute, which the source always sets), \<^verbatim>\<open>play()\<close> is called (with the
  element's \<^verbatim>\<open>muted\<close> property at the call and whether the returned promise resolved),
  \<^verbatim>\<open>muted = true\<close> is assigned, \<^verbatim>\<open>currentTime = 0\<close> is assigned, \<^verbatim>\<open>pause()\<close> is called.
\<close>

datatype media_op =
    Mounted string bool
  | PlayCall bool bool
  | SetMuted
  | Rewind
  | PauseCall

record video_el =
  src :: string
  muted :: bool

datatype variant = WithProps | Standalone

text \<open>
  The state of a mounted player: the \<^verbatim>\<open>useState\<close> cells of the component (and, for the
  stand-alone variant, its \<^verbatim>\<open>videos\<close> cell; for the other the prop), the element behind
  \<^verbatim>\<open>videoRef\<close> (\<open>None\<close> is \<^verbatim>\<open>null\<close>), the pending welcome timer with its delay in
  milliseconds, whether the stand-alone variant's fetch is still pending, the
  \<^verbatim>\<open>localStorage\<close> and the log.
\<close>

record world =
  videos :: "Video list"
  currentIndex :: int
  isPlaying :: bool
  showWelcome :: bool
  playCount :: int
  isMuted :: bool
  shouldUnmute :: bool
  videoRef :: "video_el option"
  welcomeTimer :: "nat option"
  fetchPending :: bool
  storage :: localStorage
  oplog :: "media_op list"

datatype response =
    MovieArray "Video list"
  | StatusObject string "Video list"
  | NoMoreNewVideos
  | NetworkError

datatype event =
    KeyDown key
  | SwipedLeft
  | SwipedRight
  | LeftButtonClick
  | RightButtonClick
  | SurfaceClick string
  | UnmuteClick
  | Ended
  | WelcomeTimeout
  | FetchDone response

section \<open>Errors as values\<close>

fun andThen :: "error + 'a \<Rightarrow> ('a \<Rightarrow> error + 'b) \<Rightarrow> error + 'b" where
  "andThen (Inl e) f = Inl e"
| "andThen (Inr x) f = f x"

section \<open>The state initialisers\<close>

text \<open>JavaScript's \<^verbatim>\<open>!visited\<close> on a \<^verbatim>\<open>string | null\<close>: true of \<^verbatim>\<open>null\<close> and of the empty string.\<close>

definition falsy :: "string option \<Rightarrow> bool" where
  "falsy v = (case v of None \<Rightarrow> True | Some s \<Rightarrow> s = [])"

text \<open>
  The initialiser of \<^verbatim>\<open>isFirstVisit\<close> in \<^verbatim>\<open>App.tsx\<close>, which is also, word for word, the
  initialiser of \<^verbatim>\<open>showWelcome\<close> in the stand-alone player. It returns its result and the
  storage it leaves.
\<close>

definition isFirstVisit :: "localStorage \<Rightarrow> bool \<times> localStorage" where
  "isFirstVisit st =
     (let visited = st ''visited'' in
      if falsy visited then (True, st(''visited'' \<mapsto> ''true'')) else (False, st))"

text \<open>The specification's \<^verbatim>\<open>hasVisitedBefore()\<close> is the negation of that result.\<close>

definition hasVisitedBefore :: "localStorage \<Rightarrow> bool \<times> localStorage" where
  "hasVisitedBefore st = (case isFirstVisit st of (first, st') \<Rightarrow> (\<not> first, st'))"

text \<open>Calling it again and again: the results, oldest first, and the storage left.\<close>

fun hasVisitedBefore_calls :: "nat \<Rightarrow> localStorage \<Rightarrow> bool list \<times> localStorage" where
  "hasVisitedBefore_calls 0 st = ([], st)"
| "hasVisitedBefore_calls (Suc k) st =
     (case hasVisitedBefore st of (b, st1) \<Rightarrow>
        (case hasVisitedBefore_calls k st1 of (bs, st2) \<Rightarrow> (b # bs, st2)))"

text \<open>The initialiser of \<^verbatim>\<open>shouldUnmute\<close>.\<close>

definition shouldUnmute_init :: "localStorage \<Rightarrow> bool" where
  "shouldUnmute_init st = (let savedMutePreference = st ''videoMuted'' in
     savedMutePreference = Some ''false'')"

definition initialState :: "Video list \<Rightarrow> bool \<Rightarrow> localStorage \<Rightarrow> world" where
  "initialState vs first st =
     \<lparr> videos = vs, currentIndex = 0, isPlaying = True, showWelcome = first,
       playCount = 0, isMuted = True, shouldUnmute = shouldUnmute_init st,
       videoRef = None, welcomeTimer = None, fetchPending = False,
       storage = st, oplog = [] \<rparr>"

section \<open>The play attempt\<close>

text \<open>
  \<^verbatim>\<open>videoRef.current.play()\<close>: whether the browser lets the element play is not the
  program's to decide, so the outcome is an input. A rejected promise is \<open>Inl\<close>.
\<close>

definition play :: "bool \<Rightarrow> video_el \<Rightarrow> world \<Rightarrow> (error + unit) \<times> world" where
  "play ok el w =
     (if ok then Inr () else Inl NotAllowedError,
      w\<lparr>oplog := oplog w @ [PlayCall (muted el) ok]\<rparr>)"

text \<open>
  \<^verbatim>\<open>tryPlayVideo\<close>, with the outcome of the first request and of the retry. An awaited
  promise is taken to settle before the next event is handled. The stand-alone variant
  assigns \<^verbatim>\<open>videoRef.current.muted\<close> in its \<^verbatim>\<open>catch\<close> without the second null check.
\<close>

definition tryPlayVideo :: "variant \<Rightarrow> bool \<times> bool \<Rightarrow> world \<Rightarrow> error + world" where
  "tryPlayVideo v oks w =
     (case videoRef w of
        None \<Rightarrow> Inr w
      | Some el \<Rightarrow>
          (case play (fst oks) el w of
             (Inr u, w1) \<Rightarrow> Inr (if shouldUnmute w1 then w1\<lparr>isMuted := False\<rparr> else w1)
           | (Inl e, w1) \<Rightarrow>
               (case videoRef w1 of
                  None \<Rightarrow> (if v = Standalone then Inl TypeError else Inr w1)
                | Some el1 \<Rightarrow>
                    (let el2 = el1\<lparr>muted := True\<rparr>;
                         w2 = w1\<lparr>videoRef := Some el2, oplog := oplog w1 @ [SetMuted]\<rparr>
                     in case play (snd oks) el2 w2 of
                          (Inr u, w3) \<Rightarrow> Inr w3
                        | (Inl retryError, w3) \<Rightarrow> Inr w3))))"

section \<open>The handlers\<close>

text \<open>
  A handler closes over the state of the render that created it. Every event is taken to
  arrive after the render that follows the event before it, so the \<^verbatim>\<open>playCount\<close> that
  \<^verbatim>\<open>handleVideoEnd\<close> tests is the current one. State setters are written as updates of the
  state; what a handler calls on the element goes to the log.
\<close>

definition handleVideoEnd :: "variant \<Rightarrow> bool \<times> bool \<Rightarrow> world \<Rightarrow> error + world" where
  "handleVideoEnd v oks w =
     (let w1 = w\<lparr>playCount := playCount w + 1\<rparr> in
      if playCount w \<ge> 1 then Inr (w1\<lparr>isPlaying := False\<rparr>)
      else (case videoRef w1 of
              None \<Rightarrow> Inr w1
            | Some el \<Rightarrow> tryPlayVideo v oks (w1\<lparr>oplog := oplog w1 @ [Rewind]\<rparr>)))"

definition handleNavigation :: "direction \<Rightarrow> world \<Rightarrow> world" where
  "handleNavigation dir w =
     (let n = int (length (videos w)); prevIndex = currentIndex w in
      w\<lparr>currentIndex :=
           (case dir of
              Prev \<Rightarrow> (if prevIndex = 0 then n - 1 else prevIndex - 1)
            | Next \<Rightarrow> (if prevIndex = n - 1 then 0 else prevIndex + 1)),
        playCount := 0,
        isPlaying := True\<rparr>)"

definition handleKeyPress :: "key \<Rightarrow> world \<Rightarrow> world" where
  "handleKeyPress k w =
     (case k of
        ArrowLeft \<Rightarrow> handleNavigation Prev w
      | ArrowRight \<Rightarrow> handleNavigation Next w
      | Space \<Rightarrow> w\<lparr>isPlaying := \<not> isPlaying w\<rparr>
      | OtherKey \<Rightarrow> w)"

definition handleVideoClick :: "string \<Rightarrow> world \<Rightarrow> world" where
  "handleVideoClick tagName w =
     (if tagName \<noteq> ''BUTTON'' then w\<lparr>isPlaying := \<not> isPlaying w\<rparr> else w)"

text \<open>The \<^verbatim>\<open>onClick\<close> of the unmute button.\<close>

definition unmuteClick :: "world \<Rightarrow> world" where
  "unmuteClick w = w\<lparr>isMuted := False, storage := (storage w)(''videoMuted'' \<mapsto> ''false'')\<rparr>"

text \<open>The callback of the welcome timer; a timeout that has fired is no longer pending.\<close>

definition welcomeTimeout :: "variant \<Rightarrow> bool \<times> bool \<Rightarrow> world \<Rightarrow> error + world" where
  "welcomeTimeout v oks w = tryPlayVideo v oks (w\<lparr>welcomeTimer := None, showWelcome := False\<rparr>)"

text \<open>
  The \<^verbatim>\<open>then\<close> and \<^verbatim>\<open>catch\<close> of the stand-alone variant's fetch: only an object with
  \<^verbatim>\<open>status === 'success'\<close> sets the list.
\<close>

definition fetchDone :: "response \<Rightarrow> world \<Rightarrow> world" where
  "fetchDone r w =
     (case r of
        StatusObject status movies \<Rightarrow>
          (if status = ''success'' then w\<lparr>videos := movies, fetchPending := False\<rparr>
           else w\<lparr>fetchPending := False\<rparr>)
      | MovieArray ms \<Rightarrow> w\<lparr>fetchPending := False\<rparr>
      | NoMoreNewVideos \<Rightarrow> w\<lparr>fetchPending := False\<rparr>
      | NetworkError \<Rightarrow> w\<lparr>fetchPending := False\<rparr>)"

section \<open>Effects\<close>

text \<open>The effect with the dependencies \<^verbatim>\<open>[isPlaying, currentIndex, tryPlayVideo]\<close>.\<close>

definition playEffect :: "variant \<Rightarrow> bool \<times> bool \<Rightarrow> world \<Rightarrow> error + world" where
  "playEffect v oks w =
     (case videoRef w of
        None \<Rightarrow> Inr w
      | Some el \<Rightarrow>
          (if isPlaying w then tryPlayVideo v oks w
           else Inr (w\<lparr>oplog := oplog w @ [PauseCall]\<rparr>)))"

text \<open>
  The effect with the dependencies \<^verbatim>\<open>[showWelcome, tryPlayVideo]\<close>: its cleanup clears the
  timer of the previous run, its body sets one of 3000 ms while \<^verbatim>\<open>showWelcome\<close> holds.
\<close>

definition welcomeEffect :: "world \<Rightarrow> world" where
  "welcomeEffect w = w\<lparr>welcomeTimer := (if showWelcome w then Some 3000 else None)\<rparr>"

text \<open>
  After a commit React runs the effects whose dependencies changed, in the order of their
  declaration. \<^verbatim>\<open>tryPlayVideo\<close> depends on \<^verbatim>\<open>shouldUnmute\<close> alone, which has no setter, so
  its identity never changes.
\<close>

definition effects :: "variant \<Rightarrow> bool \<times> bool \<Rightarrow> world \<Rightarrow> world \<Rightarrow> error + world" where
  "effects v oks prev w =
     andThen
       (if isPlaying w \<noteq> isPlaying prev \<or> currentIndex w \<noteq> currentIndex prev
        then playEffect v oks w else Inr w)
       (\<lambda>w1. Inr (if showWelcome w1 \<noteq> showWelcome prev then welcomeEffect w1 else w1))"

definition mountEffects :: "variant \<Rightarrow> bool \<times> bool \<Rightarrow> world \<Rightarrow> error + world" where
  "mountEffects v oks w = andThen (playEffect v oks w) (\<lambda>w1. Inr (welcomeEffect w1))"

section \<open>Rendering\<close>

definition mount_el :: "string \<Rightarrow> world \<Rightarrow> world" where
  "mount_el u w =
     w\<lparr>videoRef := Some \<lparr>src = u, muted = isMuted w\<rparr>,
       oplog := oplog w @ [Mounted u (isMuted w)]\<rparr>"

text \<open>
  The \<^verbatim>\<open>return\<close> of the component, committed against the previous commit \<open>prev\<close>. The
  stand-alone variant returns its placeholder for an empty list before it reads
  \<^verbatim>\<open>videos[currentIndex].url\<close>; reading \<^verbatim>\<open>.url\<close> of \<^verbatim>\<open>undefined\<close> is a TypeError. The video
  sits under \<^verbatim>\<open>key={currentIndex}\<close>, so a changed index unmounts the element and mounts a
  new one; an element that stays has a property assigned only when its prop changed.
\<close>

definition render :: "variant \<Rightarrow> world \<Rightarrow> world \<Rightarrow> error + world" where
  "render v prev w =
     (if v = Standalone \<and> length (videos w) = 0 then Inr (w\<lparr>videoRef := None\<rparr>)
      else if 0 \<le> currentIndex w \<and> currentIndex w < int (length (videos w)) then
        (let u = url (videos w ! nat (currentIndex w)) in
         case videoRef w of
           None \<Rightarrow> Inr (mount_el u w)
         | Some el \<Rightarrow>
             (if currentIndex w = currentIndex prev
              then Inr (w\<lparr>videoRef := Some (el\<lparr>src := u,
                          muted := (if isMuted w = isMuted prev then muted el else isMuted w)\<rparr>)\<rparr>)
              else Inr (mount_el u w)))
      else Inl TypeError)"

section \<open>Mounting and events\<close>

text \<open>The player of \<^verbatim>\<open>App.tsx\<close>, mounted with its props.\<close>

definition MoviePlayer :: "Video list \<Rightarrow> bool \<Rightarrow> localStorage \<Rightarrow> bool \<times> bool \<Rightarrow> error + world" where
  "MoviePlayer vs first st oks =
     (let w0 = initialState vs first st in
      andThen (render WithProps w0 w0) (\<lambda>w1.
      andThen (mountEffects WithProps oks w1) (\<lambda>w2.
      render WithProps w1 w2)))"

text \<open>The stand-alone player: its list starts empty and its fetch is pending.\<close>

definition MoviePlayer_standalone :: "localStorage \<Rightarrow> bool \<times> bool \<Rightarrow> error + world" where
  "MoviePlayer_standalone st oks =
     (case isFirstVisit st of (first, st1) \<Rightarrow>
        (let w0 = (initialState [] first st1)\<lparr>fetchPending := True\<rparr> in
         andThen (render Standalone w0 w0) (\<lambda>w1.
         andThen (mountEffects Standalone oks w1) (\<lambda>w2.
         render Standalone w1 w2))))"

text \<open>
  Which events can reach the component: the \<^verbatim>\<open>keydown\<close> listener sits on \<^verbatim>\<open>window\<close> as
  long as the component is mounted; the container, its buttons and the video exist only
  when the video is rendered; the unmute button only under
  \<^verbatim>\<open>isMuted && shouldUnmute\<close>; the timer fires only while pending.
\<close>

definition enabled :: "variant \<Rightarrow> event \<Rightarrow> world \<Rightarrow> bool" where
  "enabled v ev w =
     (case ev of
        KeyDown k \<Rightarrow> True
      | FetchDone r \<Rightarrow> v = Standalone \<and> fetchPending w
      | WelcomeTimeout \<Rightarrow> welcomeTimer w \<noteq> None
      | UnmuteClick \<Rightarrow> videoRef w \<noteq> None \<and> isMuted w \<and> shouldUnmute w
      | _ \<Rightarrow> videoRef w \<noteq> None)"

text \<open>
  A click on a navigation button runs its \<^verbatim>\<open>onClick\<close> and bubbles to the container, whose
  \<^verbatim>\<open>handleVideoClick\<close> sees a \<^verbatim>\<open>BUTTON\<close>; the unmute button stops the propagation.
\<close>

definition handler :: "variant \<Rightarrow> bool \<times> bool \<Rightarrow> event \<Rightarrow> world \<Rightarrow> error + world" where
  "handler v oks ev w =
     (case ev of
        KeyDown k \<Rightarrow> Inr (handleKeyPress k w)
      | SwipedLeft \<Rightarrow> Inr (handleNavigation Next w)
      | SwipedRight \<Rightarrow> Inr (handleNavigation Prev w)
      | LeftButtonClick \<Rightarrow> Inr (handleVideoClick ''BUTTON'' (handleNavigation Prev w))
      | RightButtonClick \<Rightarrow> Inr (handleVideoClick ''BUTTON'' (handleNavigation Next w))
      | SurfaceClick tagName \<Rightarrow> Inr (handleVideoClick tagName w)
      | UnmuteClick \<Rightarrow> Inr (unmuteClick w)
      | Ended \<Rightarrow> handleVideoEnd v oks w
      | WelcomeTimeout \<Rightarrow> welcomeTimeout v oks w
      | FetchDone r \<Rightarrow> Inr (fetchDone r w))"

text \<open>
  What follows a handler: the commit of the state it set (against the commit before the
  event), the effects whose dependencies changed, and the commit of what they set.
\<close>

definition commit :: "variant \<Rightarrow> bool \<times> bool \<Rightarrow> world \<Rightarrow> world \<Rightarrow> error + world" where
  "commit v oks prev w1 =
     andThen (render v prev w1) (\<lambda>w2.
     andThen (effects v oks prev w2) (\<lambda>w3.
     render v w2 w3))"

text \<open>One event, with the outcomes of the play requests it may cause.\<close>

definition step :: "variant \<Rightarrow> event \<times> bool \<times> bool \<Rightarrow> world \<Rightarrow> error + world" where
  "step v inp w =
     (case inp of (ev, oks) \<Rightarrow>
        if \<not> enabled v ev w then Inr w
        else andThen (handler v oks ev w) (commit v oks w))"

fun run :: "variant \<Rightarrow> (event \<times> bool \<times> bool) list \<Rightarrow> world \<Rightarrow> error + world" where
  "run v [] w = Inr w"
| "run v (inp # inps) w = andThen (step v inp w) (run v inps)"

section \<open>The application\<close>

text \<open>
  \<^verbatim>\<open>fetchVideos\<close> of \<^verbatim>\<open>App.tsx\<close>: the list it leaves in \<^verbatim>\<open>videos\<close>. An object without
  \<^verbatim>\<open>no_more_new_videos\<close> that is no array has no \<^verbatim>\<open>map\<close>; the TypeError is caught and
  the list stays empty, as it does when the request fails.
\<close>

definition fetchVideos :: "response \<Rightarrow> Video list" where
  "fetchVideos r =
     (case r of
        NoMoreNewVideos \<Rightarrow> []
      | MovieArray ms \<Rightarrow> ms
      | StatusObject status ms \<Rightarrow> []
      | NetworkError \<Rightarrow> [])"

datatype screen = NoVideosToDisplay localStorage | Player world | Crashed error

text \<open>
  \<^verbatim>\<open>App\<close> once loading is over: the player is mounted only for \<^verbatim>\<open>videos.length > 0\<close>.
\<close>

definition App :: "localStorage \<Rightarrow> response \<Rightarrow> bool \<times> bool \<Rightarrow> screen" where
  "App st r oks =
     (case isFirstVisit st of (first, st1) \<Rightarrow>
        (let vs = fetchVideos r in
         if length vs > 0
         then (case MoviePlayer vs first st1 oks of Inr w \<Rightarrow> Player w | Inl e \<Rightarrow> Crashed e)
         else NoVideosToDisplay st1))"

text \<open>A session of the application: start, then the events. Without a player no handler exists.\<close>

definition session ::
  "localStorage \<Rightarrow> response \<Rightarrow> bool \<times> bool \<Rightarrow> (event \<times> bool \<times> bool) list \<Rightarrow> screen" where
  "session st r oks inps =
     (case App st r oks of
        Player w \<Rightarrow> (case run WithProps inps w of Inr w' \<Rightarrow> Player w' | Inl e \<Rightarrow> Crashed e)
      | NoVideosToDisplay st1 \<Rightarrow> NoVideosToDisplay st1
      | Crashed e \<Rightarrow> Crashed e)"

text \<open>
  Sessions one after the other on the same storage: each starts from the storage the one
  before left. The result lists where each session stands after its events.
\<close>

fun lifetime ::
  "localStorage \<Rightarrow> (response \<times> (bool \<times> bool) \<times> (event \<times> bool \<times> bool) list) list \<Rightarrow> screen list" where
  "lifetime st [] = []"
| "lifetime st ((r, oks, inps) # ss) =
     (case session st r oks inps of
        Player w \<Rightarrow> Player w # lifetime (storage w) ss
      | NoVideosToDisplay st1 \<Rightarrow> NoVideosToDisplay st1 # lifetime st1 ss
      | Crashed e \<Rightarrow> [Crashed e])"

text \<open>A session of the stand-alone player.\<close>

definition standalone_session ::
  "localStorage \<Rightarrow> bool \<times> bool \<Rightarrow> (event \<times> bool \<times> bool) list \<Rightarrow> error + world" where
  "standalone_session st oks inps = andThen (MoviePlayer_standalone st oks) (run Standalone inps)"

section \<open>Vocabulary of the properties\<close>

text \<open>The events that the source wires to \<^verbatim>\<open>handleNavigation\<close>, with the direction passed.\<close>

fun navigates :: "event \<Rightarrow> direction option" where
  "navigates (KeyDown ArrowLeft) = Some Prev"
| "navigates (KeyDown ArrowRight) = Some Next"
| "navigates SwipedLeft = Some Next"
| "navigates SwipedRight = Some Prev"
| "navigates LeftButtonClick = Some Prev"
| "navigates RightButtonClick = Some Next"
| "navigates ev = None"

text \<open>The events that the source wires to \<^verbatim>\<open>setIsPlaying(prev => !prev)\<close>.\<close>

fun toggles :: "event \<Rightarrow> bool" where
  "toggles (KeyDown Space) = True"
| "toggles (SurfaceClick tagName) = (tagName \<noteq> ''BUTTON'')"
| "toggles ev = False"

text \<open>
  The trace of one Play Attempt on an element whose \<^verbatim>\<open>muted\<close> property is \<open>m\<close>: one
  request when it succeeds; otherwise the request, the forced muting and one muted retry.
\<close>

definition attempt_ops :: "bool \<Rightarrow> bool \<times> bool \<Rightarrow> media_op list" where
  "attempt_ops m oks =
     (if fst oks then [PlayCall m True] else [PlayCall m False, SetMuted, PlayCall True (snd oks)])"

fun is_resolved_PlayCall :: "media_op \<Rightarrow> bool" where
  "is_resolved_PlayCall (PlayCall m ok) = ok"
| "is_resolved_PlayCall op = False"

text \<open>What an event added to the log.\<close>

definition new_ops :: "world \<Rightarrow> world \<Rightarrow> media_op list" where
  "new_ops w w' = drop (length (oplog w)) (oplog w')"

text \<open>A successful unforced autoplay: a play request resolved and no muting was forced.\<close>

definition successful_autoplay :: "media_op list \<Rightarrow> bool" where
  "successful_autoplay ops \<longleftrightarrow> list_ex is_resolved_PlayCall ops \<and> \<not> List.member ops SetMuted"

definition el_muted :: "world \<Rightarrow> bool" where
  "el_muted w = (case videoRef w of None \<Rightarrow> True | Some el \<Rightarrow> muted el)"

definition on_player :: "(world \<Rightarrow> 'a) \<Rightarrow> screen \<Rightarrow> 'a option" where
  "on_player f sc = (case sc of Player w \<Rightarrow> Some (f w) | NoVideosToDisplay st \<Rightarrow> None | Crashed e \<Rightarrow> None)"

text \<open>The state cells that neither a commit nor a Play Attempt writes.\<close>

definition core ::
  "world \<Rightarrow> Video list \<times> int \<times> bool \<times> bool \<times> int \<times> bool \<times> bool \<times> localStorage" where
  "core w = (videos w, currentIndex w, isPlaying w, showWelcome w, playCount w,
             shouldUnmute w, fetchPending w, storage w)"

definition in_range :: "world \<Rightarrow> bool" where
  "in_range w \<longleftrightarrow> 0 \<le> currentIndex w \<and> currentIndex w < int (length (videos w))"

text \<open>What holds of every state of a mounted player of the application.\<close>

definition inv :: "world \<Rightarrow> bool" where
  "inv w \<longleftrightarrow> in_range w \<and> videoRef w \<noteq> None \<and> 0 \<le> playCount w
     \<and> welcomeTimer w = (if showWelcome w then Some 3000 else None)
     \<and> \<not> falsy (storage w ''visited'')"

text \<open>Example clips and storages.\<close>

definition clip1 :: Video where "clip1 = \<lparr>video_id = 1, url = ''a.mp4'', title = ''A''\<rparr>"
definition clip2 :: Video where "clip2 = \<lparr>video_id = 2, url = ''b.mp4'', title = ''B''\<rparr>"
definition clip3 :: Video where "clip3 = \<lparr>video_id = 3, url = ''c.mp4'', title = ''C''\<rparr>"

definition fresh :: localStorage where
  "fresh = Map.empty"

definition unmuted_before :: localStorage where
  "unmuted_before = [''visited'' \<mapsto> ''true'', ''videoMuted'' \<mapsto> ''false'']"

section \<open>Vocabulary of the proofs\<close>

text \<open>Whether a commit creates a new video element, and whether it re-runs the play effect.\<close>

definition remounts :: "world \<Rightarrow> world \<Rightarrow> bool" where
  "remounts prev w1 \<longleftrightarrow> videoRef w1 = None \<or> currentIndex w1 \<noteq> currentIndex prev"

definition reruns :: "world \<Rightarrow> world \<Rightarrow> bool" where
  "reruns prev w1 \<longleftrightarrow> isPlaying w1 \<noteq> isPlaying prev \<or> currentIndex w1 \<noteq> currentIndex prev"

text \<open>What a commit of the application's player leaves, given the state the handler set.\<close>

definition committed :: "bool \<times> bool \<Rightarrow> world \<Rightarrow> world \<Rightarrow> world \<Rightarrow> bool" where
  "committed oks prev w1 w' \<longleftrightarrow>
     core w' = core w1 \<and> videoRef w' \<noteq> None
     \<and> welcomeTimer w' = (if showWelcome w1 \<noteq> showWelcome prev
                            then (if showWelcome w1 then Some 3000 else None) else welcomeTimer w1)
     \<and> isMuted w' = (isMuted w1 \<and> \<not> (reruns prev w1 \<and> isPlaying w1 \<and> fst oks \<and> shouldUnmute w1))
     \<and> oplog w' = oplog w1
         @ (if remounts prev w1 then [Mounted (url (videos w1 ! nat (currentIndex w1))) (isMuted w1)] else [])
         @ (if reruns prev w1
            then (if isPlaying w1
                  then attempt_ops (if remounts prev w1 \<or> isMuted w1 \<noteq> isMuted prev then isMuted w1 else el_muted w1) oks
                  else [PauseCall])
            else [])
     \<and> (isMuted w' \<and> el_muted w1 \<longrightarrow> el_muted w')"

text \<open>What every event leaves alone, with \<open>att\<close> telling whether it issued a Play Attempt.\<close>

definition follows :: "world \<Rightarrow> world \<Rightarrow> bool \<Rightarrow> bool \<times> bool \<Rightarrow> bool" where
  "follows w w' att oks \<longleftrightarrow>
     videos w' = videos w \<and> shouldUnmute w' = shouldUnmute w \<and> fetchPending w' = fetchPending w
     \<and> videoRef w' \<noteq> None
     \<and> take (length (oplog w)) (oplog w') = oplog w
     \<and> successful_autoplay (new_ops w w') = (att \<and> fst oks)
     \<and> (isMuted w' \<and> el_muted w \<longrightarrow> el_muted w')"

text \<open>What any number of events leave alone.\<close>

definition evolves :: "world \<Rightarrow> world \<Rightarrow> bool" where
  "evolves w w' \<longleftrightarrow> inv w' \<and> videos w' = videos w \<and> shouldUnmute w' = shouldUnmute w
     \<and> (showWelcome w' \<longrightarrow> showWelcome w)
     \<and> (isMuted w' \<longrightarrow> isMuted w)
     \<and> (\<not> shouldUnmute w \<longrightarrow> isMuted w' = isMuted w \<and> storage w' = storage w)
     \<and> storage w' ''visited'' = storage w ''visited''
     \<and> (storage w' ''videoMuted'' = storage w ''videoMuted'' \<or> storage w' ''videoMuted'' = Some ''false'')
     \<and> (isMuted w' \<and> el_muted w \<longrightarrow> el_muted w')"

section \<open>Building blocks\<close>

lemma tryPlayVideo_Some:
  "videoRef w = Some el \<Longrightarrow>
   tryPlayVideo v oks w =
     Inr (if fst oks
          then w\<lparr>isMuted := isMuted w \<and> \<not> shouldUnmute w, oplog := oplog w @ attempt_ops (muted el) oks\<rparr>
          else w\<lparr>videoRef := Some (el\<lparr>muted := True\<rparr>),
                 oplog := oplog w @ attempt_ops (muted el) oks\<rparr>)"
  by (cases "snd oks") (auto simp: tryPlayVideo_def play_def attempt_ops_def)

lemma render_WithProps:
  assumes "in_range w"
  shows "render WithProps prev w =
     Inr (if videoRef w = None \<or> currentIndex w \<noteq> currentIndex prev
          then mount_el (url (videos w ! nat (currentIndex w))) w
          else w\<lparr>videoRef := Some ((the (videoRef w))\<lparr>src := url (videos w ! nat (currentIndex w)),
                    muted := (if isMuted w = isMuted prev then muted (the (videoRef w)) else isMuted w)\<rparr>)\<rparr>)"
  using assms by (auto simp: render_def in_range_def Let_def split: option.splits)

lemma commit_WithProps:
  assumes "in_range w1"
  shows "\<exists>w'. commit WithProps oks prev w1 = Inr w' \<and> committed oks prev w1 w'"
  using assms unfolding committed_def
  by (cases "fst oks")
     (auto simp: commit_def render_WithProps effects_def playEffect_def welcomeEffect_def
      mount_el_def tryPlayVideo_Some core_def in_range_def el_muted_def remounts_def reruns_def)

lemma step_fires:
  assumes "enabled WithProps ev w" and "handler WithProps oks ev w = Inr w1" and "in_range w1"
  obtains w' where "step WithProps (ev, oks) w = Inr w'" and "committed oks w w1 w'"
  using assms commit_WithProps[OF assms(3), of oks w] by (auto simp: step_def)

lemma committedD:
  assumes "committed oks prev w1 w'"
  shows "core w' = core w1"
    and "videoRef w' \<noteq> None"
    and "welcomeTimer w' = (if showWelcome w1 \<noteq> showWelcome prev
                            then (if showWelcome w1 then Some 3000 else None) else welcomeTimer w1)"
    and "isMuted w' = (isMuted w1 \<and> \<not> (reruns prev w1 \<and> isPlaying w1 \<and> fst oks \<and> shouldUnmute w1))"
    and "oplog w' = oplog w1
         @ (if remounts prev w1 then [Mounted (url (videos w1 ! nat (currentIndex w1))) (isMuted w1)] else [])
         @ (if reruns prev w1
            then (if isPlaying w1
                  then attempt_ops (if remounts prev w1 \<or> isMuted w1 \<noteq> isMuted prev then isMuted w1 else el_muted w1) oks
                  else [PauseCall])
            else [])"
    and "isMuted w' \<and> el_muted w1 \<longrightarrow> el_muted w'"
  using assms by (simp_all add: committed_def)

lemma coreD:
  assumes "core w' = core w1"
  shows "videos w' = videos w1" and "currentIndex w' = currentIndex w1" and "isPlaying w' = isPlaying w1"
    and "showWelcome w' = showWelcome w1" and "playCount w' = playCount w1"
    and "shouldUnmute w' = shouldUnmute w1" and "fetchPending w' = fetchPending w1"
    and "storage w' = storage w1"
  using assms by (simp_all add: core_def)

lemma new_ops_append: "oplog w' = oplog w @ ops \<Longrightarrow> new_ops w w' = ops"
  by (simp add: new_ops_def)

lemma successful_autoplay_simps:
  "successful_autoplay [] = False"
  "successful_autoplay (Mounted u b # ops) = successful_autoplay ops"
  "successful_autoplay (Rewind # ops) = successful_autoplay ops"
  "successful_autoplay (PauseCall # ops) = successful_autoplay ops"
  "successful_autoplay (attempt_ops m oks) = fst oks"
  by (auto simp: successful_autoplay_def attempt_ops_def)

section \<open>One event, by kind\<close>

lemma followsI:
  assumes "videos w' = videos w" and "shouldUnmute w' = shouldUnmute w"
    and "fetchPending w' = fetchPending w" and "videoRef w' \<noteq> None"
    and "oplog w' = oplog w @ ops" and "successful_autoplay ops = (att \<and> fst oks)"
    and "isMuted w' \<and> el_muted w \<longrightarrow> el_muted w'"
  shows "follows w w' att oks"
  using assms by (simp add: follows_def new_ops_def)

lemma step_nav:
  assumes "inv w" and "navigates ev = Some dir"
  shows "\<exists>w'. step WithProps (ev, oks) w = Inr w'
     \<and> currentIndex w' = currentIndex (handleNavigation dir w)
     \<and> isPlaying w' \<and> playCount w' = 0 \<and> showWelcome w' = showWelcome w
     \<and> storage w' = storage w \<and> welcomeTimer w' = welcomeTimer w
     \<and> isMuted w' = (isMuted w \<and> \<not> ((currentIndex (handleNavigation dir w) \<noteq> currentIndex w \<or> \<not> isPlaying w) \<and> fst oks \<and> shouldUnmute w))
     \<and> follows w w' (currentIndex (handleNavigation dir w) \<noteq> currentIndex w \<or> \<not> isPlaying w) oks"
proof -
  let ?w1 = "handleNavigation dir w"
  have en: "enabled WithProps ev w"
    using assms by (cases ev rule: navigates.cases) (auto simp: enabled_def inv_def)
  have h: "handler WithProps oks ev w = Inr ?w1"
    using assms(2) by (cases ev rule: navigates.cases) (auto simp: handler_def handleKeyPress_def handleVideoClick_def)
  have f: "videos ?w1 = videos w" "isPlaying ?w1" "playCount ?w1 = 0" "showWelcome ?w1 = showWelcome w"
    "storage ?w1 = storage w" "welcomeTimer ?w1 = welcomeTimer w" "isMuted ?w1 = isMuted w"
    "shouldUnmute ?w1 = shouldUnmute w" "fetchPending ?w1 = fetchPending w" "videoRef ?w1 = videoRef w"
    "oplog ?w1 = oplog w" "el_muted ?w1 = el_muted w"
    by (simp_all add: handleNavigation_def Let_def el_muted_def)
  have r: "in_range ?w1"
    using assms(1) by (auto simp: inv_def in_range_def handleNavigation_def Let_def split: direction.splits)
  from step_fires[OF en h r] obtain w' where
    st: "step WithProps (ev, oks) w = Inr w'" and c: "committed oks w ?w1 w'" by blast
  note d = committedD[OF c] and k = coreD[OF committedD(1)[OF c]]
  have rr: "reruns w ?w1 = (currentIndex ?w1 \<noteq> currentIndex w \<or> \<not> isPlaying w)"
    using f by (auto simp: reruns_def)
  have "\<exists>ops. oplog w' = oplog w @ ops \<and> successful_autoplay ops = (reruns w ?w1 \<and> fst oks)"
    using d(5) f by (simp add: successful_autoplay_simps)
  then obtain ops where o: "oplog w' = oplog w @ ops"
    and s: "successful_autoplay ops = ((currentIndex ?w1 \<noteq> currentIndex w \<or> \<not> isPlaying w) \<and> fst oks)"
    unfolding rr by blast
  have e: "isMuted w' \<and> el_muted w \<longrightarrow> el_muted w'" using d(6) f by simp
  have fo: "follows w w' (currentIndex ?w1 \<noteq> currentIndex w \<or> \<not> isPlaying w) oks"
    by (rule followsI[OF _ _ _ d(2) o s e]) (simp_all add: k f)
  have m: "isMuted w' = (isMuted w \<and> \<not> ((currentIndex ?w1 \<noteq> currentIndex w \<or> \<not> isPlaying w) \<and> fst oks \<and> shouldUnmute w))"
    using d(4) f rr by simp
  show ?thesis
    using st fo m k f d(3) by simp
qed

lemma step_toggle:
  assumes "inv w" and "toggles ev"
  shows "\<exists>w'. step WithProps (ev, oks) w = Inr w'
     \<and> currentIndex w' = currentIndex w
     \<and> isPlaying w' = (\<not> isPlaying w) \<and> playCount w' = playCount w \<and> showWelcome w' = showWelcome w
     \<and> storage w' = storage w \<and> welcomeTimer w' = welcomeTimer w
     \<and> isMuted w' = (isMuted w \<and> \<not> (\<not> isPlaying w \<and> fst oks \<and> shouldUnmute w))
     \<and> oplog w' = oplog w @ (if isPlaying w then [PauseCall] else attempt_ops (el_muted w) oks)
     \<and> follows w w' (\<not> isPlaying w) oks"
proof -
  let ?w1 = "w\<lparr>isPlaying := \<not> isPlaying w\<rparr>"
  have v: "videoRef w \<noteq> None" using assms(1) by (simp add: inv_def)
  have en: "enabled WithProps ev w"
    using assms by (cases ev rule: toggles.cases) (auto simp: enabled_def inv_def)
  have h: "handler WithProps oks ev w = Inr ?w1"
    using assms(2) by (cases ev rule: toggles.cases) (auto simp: handler_def handleKeyPress_def handleVideoClick_def)
  have r: "in_range ?w1"
    using assms(1) by (auto simp: inv_def in_range_def)
  from step_fires[OF en h r] obtain w' where
    st: "step WithProps (ev, oks) w = Inr w'" and c: "committed oks w ?w1 w'" by blast
  note d = committedD[OF c] and k = coreD[OF committedD(1)[OF c]]
  have rm: "\<And>b. \<not> remounts w (w\<lparr>isPlaying := b\<rparr>)" and rr: "reruns w ?w1"
    and em: "\<And>b. el_muted (w\<lparr>isPlaying := b\<rparr>) = el_muted w"
    using v by (simp_all add: remounts_def reruns_def el_muted_def)
  have o: "oplog w' = oplog w @ (if isPlaying w then [PauseCall] else attempt_ops (el_muted w) oks)"
    using d(5) rm rr em by simp
  have s: "successful_autoplay (if isPlaying w then [PauseCall] else attempt_ops (el_muted w) oks)
      = (\<not> isPlaying w \<and> fst oks)"
    by (simp add: successful_autoplay_simps)
  have e: "isMuted w' \<and> el_muted w \<longrightarrow> el_muted w'" using d(6) em by simp
  have fo: "follows w w' (\<not> isPlaying w) oks"
    by (rule followsI[OF _ _ _ d(2) o s e]) (simp_all add: k)
  have m: "isMuted w' = (isMuted w \<and> \<not> (\<not> isPlaying w \<and> fst oks \<and> shouldUnmute w))"
    using d(4) rr by simp
  show ?thesis
    using st fo m k o d(3) by simp
qed

lemma step_unmute:
  assumes "inv w" and "isMuted w" and "shouldUnmute w"
  shows "\<exists>w'. step WithProps (UnmuteClick, oks) w = Inr w'
     \<and> currentIndex w' = currentIndex w
     \<and> isPlaying w' = isPlaying w \<and> playCount w' = playCount w \<and> showWelcome w' = showWelcome w
     \<and> storage w' = (storage w)(''videoMuted'' \<mapsto> ''false'') \<and> welcomeTimer w' = welcomeTimer w
     \<and> \<not> isMuted w'
     \<and> oplog w' = oplog w
     \<and> follows w w' False oks"
proof -
  let ?w1 = "unmuteClick w"
  have v: "videoRef w \<noteq> None" using assms(1) by (simp add: inv_def)
  have en: "enabled WithProps UnmuteClick w"
    using assms by (auto simp: enabled_def inv_def)
  have h: "handler WithProps oks UnmuteClick w = Inr ?w1"
    by (simp add: handler_def)
  have r: "in_range ?w1"
    using assms(1) by (auto simp: inv_def in_range_def unmuteClick_def)
  from step_fires[OF en h r] obtain w' where
    st: "step WithProps (UnmuteClick, oks) w = Inr w'" and c: "committed oks w ?w1 w'" by blast
  note d = committedD[OF c] and k = coreD[OF committedD(1)[OF c]]
  have rm: "\<not> remounts w ?w1" and rr: "\<not> reruns w ?w1"
    using v by (simp_all add: remounts_def reruns_def unmuteClick_def)
  have o: "oplog w' = oplog w @ []"
    using d(5) rm rr by (simp add: unmuteClick_def)
  have i: "\<not> isMuted w'"
    using d(4) by (simp add: unmuteClick_def)
  have fo: "follows w w' False oks"
    by (rule followsI[OF _ _ _ d(2) o]) (simp_all add: k i unmuteClick_def successful_autoplay_simps)
  show ?thesis
    using st fo i k o d(3) by (simp add: unmuteClick_def)
qed

lemma step_ended:
  assumes "inv w"
  shows "\<exists>w'. step WithProps (Ended, oks) w = Inr w'
     \<and> currentIndex w' = currentIndex w
     \<and> isPlaying w' = (isPlaying w \<and> playCount w < 1) \<and> playCount w' = playCount w + 1
     \<and> showWelcome w' = showWelcome w
     \<and> storage w' = storage w \<and> welcomeTimer w' = welcomeTimer w
     \<and> isMuted w' = (isMuted w \<and> \<not> (playCount w < 1 \<and> fst oks \<and> shouldUnmute w))
     \<and> oplog w' = oplog w @ (if playCount w < 1 then Rewind # attempt_ops (el_muted w) oks
                               else if isPlaying w then [PauseCall] else [])
     \<and> follows w w' (playCount w < 1) oks"
proof -
  from assms obtain el where v: "videoRef w = Some el" by (auto simp: inv_def)
  have en: "enabled WithProps Ended w"
    using v by (auto simp: enabled_def)
  define w1 where "w1 = (if playCount w \<ge> 1 then w\<lparr>playCount := playCount w + 1, isPlaying := False\<rparr>
                   else if fst oks
                   then w\<lparr>playCount := playCount w + 1, isMuted := isMuted w \<and> \<not> shouldUnmute w,
                          oplog := oplog w @ Rewind # attempt_ops (muted el) oks\<rparr>
                   else w\<lparr>playCount := playCount w + 1, videoRef := Some (el\<lparr>muted := True\<rparr>),
                          oplog := oplog w @ Rewind # attempt_ops (muted el) oks\<rparr>)"
  have h: "handler WithProps oks Ended w = Inr w1"
    using v by (simp add: w1_def handler_def handleVideoEnd_def Let_def tryPlayVideo_Some)
  have f: "videos w1 = videos w" "currentIndex w1 = currentIndex w"
    "isPlaying w1 = (isPlaying w \<and> playCount w < 1)" "playCount w1 = playCount w + 1"
    "showWelcome w1 = showWelcome w" "storage w1 = storage w" "welcomeTimer w1 = welcomeTimer w"
    "shouldUnmute w1 = shouldUnmute w" "fetchPending w1 = fetchPending w" "videoRef w1 \<noteq> None"
    "isMuted w1 = (isMuted w \<and> \<not> (playCount w < 1 \<and> fst oks \<and> shouldUnmute w))"
    "oplog w1 = oplog w @ (if playCount w < 1 then Rewind # attempt_ops (el_muted w) oks else [])"
    "el_muted w \<longrightarrow> el_muted w1"
    using v by (auto simp: w1_def el_muted_def)
  have r: "in_range w1"
    using assms(1) f by (auto simp: inv_def in_range_def)
  from step_fires[OF en h r] obtain w' where
    st: "step WithProps (Ended, oks) w = Inr w'" and c: "committed oks w w1 w'" by blast
  note d = committedD[OF c] and k = coreD[OF committedD(1)[OF c]]
  have rm: "\<not> remounts w w1" and rr: "reruns w w1 = (isPlaying w \<and> playCount w \<ge> 1)"
    using f by (auto simp: remounts_def reruns_def)
  have o: "oplog w' = oplog w @ (if playCount w < 1 then Rewind # attempt_ops (el_muted w) oks
                               else if isPlaying w then [PauseCall] else [])"
    using d(5) rm rr f by simp
  have s: "successful_autoplay (if playCount w < 1 then Rewind # attempt_ops (el_muted w) oks
                               else if isPlaying w then [PauseCall] else []) = (playCount w < 1 \<and> fst oks)"
    by (simp add: successful_autoplay_simps)
  have m: "isMuted w' = (isMuted w \<and> \<not> (playCount w < 1 \<and> fst oks \<and> shouldUnmute w))"
    using d(4) rr f by auto
  have e: "isMuted w' \<and> el_muted w \<longrightarrow> el_muted w'" using d(6) f(13) by simp
  have fo: "follows w w' (playCount w < 1) oks"
    by (rule followsI[OF _ _ _ d(2) o s e]) (simp_all add: k f)
  show ?thesis
    using st fo m k o d(3) f by simp
qed

lemma step_timeout:
  assumes "inv w" and "showWelcome w"
  shows "\<exists>w'. step WithProps (WelcomeTimeout, oks) w = Inr w'
     \<and> currentIndex w' = currentIndex w
     \<and> isPlaying w' = isPlaying w \<and> playCount w' = playCount w
     \<and> \<not> showWelcome w'
     \<and> storage w' = storage w \<and> welcomeTimer w' = None
     \<and> isMuted w' = (isMuted w \<and> \<not> (fst oks \<and> shouldUnmute w))
     \<and> oplog w' = oplog w @ attempt_ops (el_muted w) oks
     \<and> follows w w' True oks"
proof -
  from assms obtain el where v: "videoRef w = Some el" by (auto simp: inv_def)
  have en: "enabled WithProps WelcomeTimeout w"
    using assms by (auto simp: enabled_def inv_def)
  define w1 where "w1 = (if fst oks
                   then w\<lparr>welcomeTimer := None, showWelcome := False, isMuted := isMuted w \<and> \<not> shouldUnmute w,
                          oplog := oplog w @ attempt_ops (muted el) oks\<rparr>
                   else w\<lparr>welcomeTimer := None, showWelcome := False, videoRef := Some (el\<lparr>muted := True\<rparr>),
                          oplog := oplog w @ attempt_ops (muted el) oks\<rparr>)"
  have h: "handler WithProps oks WelcomeTimeout w = Inr w1"
    using v by (simp add: w1_def handler_def welcomeTimeout_def tryPlayVideo_Some)
  have f: "videos w1 = videos w" "currentIndex w1 = currentIndex w"
    "isPlaying w1 = isPlaying w" "playCount w1 = playCount w"
    "\<not> showWelcome w1" "storage w1 = storage w" "welcomeTimer w1 = None"
    "shouldUnmute w1 = shouldUnmute w" "fetchPending w1 = fetchPending w" "videoRef w1 \<noteq> None"
    "isMuted w1 = (isMuted w \<and> \<not> (fst oks \<and> shouldUnmute w))"
    "oplog w1 = oplog w @ attempt_ops (el_muted w) oks"
    "el_muted w \<longrightarrow> el_muted w1"
    using v by (auto simp: w1_def el_muted_def)
  have r: "in_range w1"
    using assms(1) f by (auto simp: inv_def in_range_def)
  from step_fires[OF en h r] obtain w' where
    st: "step WithProps (WelcomeTimeout, oks) w = Inr w'" and c: "committed oks w w1 w'" by blast
  note d = committedD[OF c] and k = coreD[OF committedD(1)[OF c]]
  have rm: "\<not> remounts w w1" and rr: "\<not> reruns w w1"
    using f by (auto simp: remounts_def reruns_def)
  have o: "oplog w' = oplog w @ attempt_ops (el_muted w) oks"
    using d(5) rm rr f by simp
  have s: "successful_autoplay (attempt_ops (el_muted w) oks) = (True \<and> fst oks)"
    by (simp add: successful_autoplay_simps)
  have m: "isMuted w' = (isMuted w \<and> \<not> (fst oks \<and> shouldUnmute w))"
    using d(4) rr f by auto
  have e: "isMuted w' \<and> el_muted w \<longrightarrow> el_muted w'" using d(6) f(13) by simp
  have fo: "follows w w' True oks"
    by (rule followsI[OF _ _ _ d(2) o s e]) (simp_all add: k f)
  show ?thesis
    using st fo m k o d(3) f assms(2) by simp
qed

lemma step_idle:
  assumes "inv w" and "navigates ev = None" and "\<not> toggles ev" and "ev \<noteq> Ended"
    and "ev = WelcomeTimeout \<longrightarrow> \<not> showWelcome w"
    and "ev = UnmuteClick \<longrightarrow> \<not> (isMuted w \<and> shouldUnmute w)"
  shows "\<exists>w'. step WithProps (ev, oks) w = Inr w'
     \<and> currentIndex w' = currentIndex w
     \<and> isPlaying w' = isPlaying w \<and> playCount w' = playCount w
     \<and> showWelcome w' = showWelcome w
     \<and> storage w' = storage w \<and> welcomeTimer w' = welcomeTimer w
     \<and> isMuted w' = isMuted w
     \<and> oplog w' = oplog w
     \<and> follows w w' False oks"
proof (cases "enabled WithProps ev w")
  case False
  then have "step WithProps (ev, oks) w = Inr w" by (simp add: step_def)
  then show ?thesis
    using assms(1) by (simp add: follows_def new_ops_def successful_autoplay_simps inv_def)
next
  case True
  have h: "handler WithProps oks ev w = Inr w"
    using assms True by (cases ev rule: navigates.cases)
      (auto simp: handler_def handleKeyPress_def handleVideoClick_def enabled_def inv_def)
  have r: "in_range w" using assms(1) by (simp add: inv_def)
  from step_fires[OF True h r] obtain w' where
    st: "step WithProps (ev, oks) w = Inr w'" and c: "committed oks w w w'" by blast
  note d = committedD[OF c] and k = coreD[OF committedD(1)[OF c]]
  have v: "videoRef w \<noteq> None" using assms(1) by (simp add: inv_def)
  have rm: "\<not> remounts w w" and rr: "\<not> reruns w w"
    using v by (auto simp: remounts_def reruns_def)
  have o: "oplog w' = oplog w @ []"
    using d(5) rm rr by simp
  have m: "isMuted w' = isMuted w" using d(4) rr by simp
  have e: "isMuted w' \<and> el_muted w \<longrightarrow> el_muted w'" using d(6) by simp
  have fo: "follows w w' False oks"
    by (rule followsI[OF _ _ _ d(2) o _ e]) (simp_all add: k successful_autoplay_simps)
  show ?thesis
    using st fo m k o d(3) by simp
qed

lemma followsD:
  assumes "follows w w' att oks"
  shows "videos w' = videos w" and "shouldUnmute w' = shouldUnmute w"
    and "fetchPending w' = fetchPending w" and "videoRef w' \<noteq> None"
    and "take (length (oplog w)) (oplog w') = oplog w"
    and "successful_autoplay (new_ops w w') = (att \<and> fst oks)"
    and "isMuted w' \<and> el_muted w \<longrightarrow> el_muted w'"
  using assms by (simp_all add: follows_def)

lemma handleNavigation_range:
  assumes "in_range w"
  shows "0 \<le> currentIndex (handleNavigation dir w)"
    and "currentIndex (handleNavigation dir w) < int (length (videos w))"
  using assms by (auto simp: handleNavigation_def in_range_def Let_def split: direction.splits)

lemma handleNavigation_index:
  assumes "in_range w"
  shows "currentIndex (handleNavigation dir w) =
           (case dir of Prev \<Rightarrow> (currentIndex w - 1 + int (length (videos w))) mod int (length (videos w))
                      | Next \<Rightarrow> (currentIndex w + 1) mod int (length (videos w)))"
proof -
  define n where "n = int (length (videos w))"
  define i where "i = currentIndex w"
  have b: "0 \<le> i" "i < n" using assms by (simp_all add: in_range_def n_def i_def)
  have p: "(if i = 0 then n - 1 else i - 1) = (i - 1 + n) mod n"
  proof (cases "i = 0")
    case True
    then show ?thesis using b by (simp add: zmod_minus1)
  next
    case False
    then have "(i - 1 + n) mod n = i - 1" using b by (simp add: mod_pos_pos_trivial)
    then show ?thesis using False by simp
  qed
  have q: "(if i = n - 1 then 0 else i + 1) = (i + 1) mod n"
  proof (cases "i = n - 1")
    case True
    then show ?thesis by simp
  next
    case False
    then have "(i + 1) mod n = i + 1" using b by (simp add: mod_pos_pos_trivial)
    then show ?thesis using False by simp
  qed
  have "currentIndex (handleNavigation dir w) =
      (case dir of Prev \<Rightarrow> (if i = 0 then n - 1 else i - 1)
                 | Next \<Rightarrow> (if i = n - 1 then 0 else i + 1))"
    by (cases dir) (simp_all add: handleNavigation_def Let_def n_def i_def)
  also have "\<dots> = (case dir of Prev \<Rightarrow> (i - 1 + n) mod n | Next \<Rightarrow> (i + 1) mod n)"
    by (simp only: p q)
  finally show ?thesis
    unfolding n_def i_def .
qed

lemma invI:
  assumes "0 \<le> currentIndex w" and "currentIndex w < int (length (videos w))"
    and "videoRef w \<noteq> None" and "0 \<le> playCount w"
    and "welcomeTimer w = (if showWelcome w then Some 3000 else None)"
    and "\<not> falsy (storage w ''visited'')"
  shows "inv w"
  using assms by (simp add: inv_def in_range_def)

lemma invD:
  assumes "inv w"
  shows "0 \<le> currentIndex w" and "currentIndex w < int (length (videos w))"
    and "videoRef w \<noteq> None" and "0 \<le> playCount w"
    and "welcomeTimer w = (if showWelcome w then Some 3000 else None)"
    and "\<not> falsy (storage w ''visited'')" and "in_range w"
  using assms by (simp_all add: inv_def in_range_def)

lemma step_any:
  assumes "inv w"
  shows "\<exists>w'. step WithProps (ev, oks) w = Inr w' \<and> inv w' \<and> videos w' = videos w
     \<and> shouldUnmute w' = shouldUnmute w
     \<and> showWelcome w' = (showWelcome w \<and> ev \<noteq> WelcomeTimeout)
     \<and> storage w' = (if ev = UnmuteClick \<and> isMuted w \<and> shouldUnmute w
                      then (storage w)(''videoMuted'' \<mapsto> ''false'') else storage w)
     \<and> isMuted w' = (isMuted w \<and> \<not> (shouldUnmute w \<and> (ev = UnmuteClick \<or> successful_autoplay (new_ops w w'))))
     \<and> (isMuted w' \<and> el_muted w \<longrightarrow> el_muted w')
     \<and> (navigates ev = None \<and> \<not> toggles ev \<longrightarrow> currentIndex w' = currentIndex w \<and> (isPlaying w' \<longrightarrow> isPlaying w))"
proof -
  note i = invD[OF assms]
  consider (nav) dir where "navigates ev = Some dir"
    | (tog) "toggles ev" "navigates ev = None"
    | (ended) "ev = Ended"
    | (timeout) "ev = WelcomeTimeout" "showWelcome w"
    | (unmute) "ev = UnmuteClick" "isMuted w" "shouldUnmute w"
    | (idle) "navigates ev = None" "\<not> toggles ev" "ev \<noteq> Ended"
        "ev = WelcomeTimeout \<longrightarrow> \<not> showWelcome w" "ev = UnmuteClick \<longrightarrow> \<not> (isMuted w \<and> shouldUnmute w)"
    by (cases "navigates ev") auto
  then show ?thesis
  proof cases
    case nav
    from step_nav[OF assms nav, of oks] obtain w' where
      st: "step WithProps (ev, oks) w = Inr w'"
      and f: "currentIndex w' = currentIndex (handleNavigation dir w)" "isPlaying w'" "playCount w' = 0"
        "showWelcome w' = showWelcome w" "storage w' = storage w" "welcomeTimer w' = welcomeTimer w"
      and m: "isMuted w' = (isMuted w \<and> \<not> ((currentIndex (handleNavigation dir w) \<noteq> currentIndex w \<or> \<not> isPlaying w) \<and> fst oks \<and> shouldUnmute w))"
      and fo: "follows w w' (currentIndex (handleNavigation dir w) \<noteq> currentIndex w \<or> \<not> isPlaying w) oks"
      by blast
    note d = followsD[OF fo]
    have ev: "ev \<noteq> WelcomeTimeout" "ev \<noteq> UnmuteClick" using nav by auto
    have "inv w'"
      by (rule invI) (simp_all add: f d i handleNavigation_range[OF i(7)])
    then show ?thesis
      using st f m d ev nav by auto
  next
    case tog
    from step_toggle[OF assms tog(1), of oks] obtain w' where
      st: "step WithProps (ev, oks) w = Inr w'"
      and f: "currentIndex w' = currentIndex w" "isPlaying w' = (\<not> isPlaying w)" "playCount w' = playCount w"
        "showWelcome w' = showWelcome w" "storage w' = storage w" "welcomeTimer w' = welcomeTimer w"
      and m: "isMuted w' = (isMuted w \<and> \<not> (\<not> isPlaying w \<and> fst oks \<and> shouldUnmute w))"
      and fo: "follows w w' (\<not> isPlaying w) oks"
      by blast
    note d = followsD[OF fo]
    have ev: "ev \<noteq> WelcomeTimeout" "ev \<noteq> UnmuteClick" using tog by auto
    have "inv w'"
      by (rule invI) (simp_all add: f d i)
    then show ?thesis
      using st f m d ev tog by auto
  next
    case ended
    from step_ended[OF assms, of oks] obtain w' where
      st: "step WithProps (Ended, oks) w = Inr w'"
      and f: "currentIndex w' = currentIndex w" "isPlaying w' = (isPlaying w \<and> playCount w < 1)"
        "playCount w' = playCount w + 1"
        "showWelcome w' = showWelcome w" "storage w' = storage w" "welcomeTimer w' = welcomeTimer w"
      and m: "isMuted w' = (isMuted w \<and> \<not> (playCount w < 1 \<and> fst oks \<and> shouldUnmute w))"
      and fo: "follows w w' (playCount w < 1) oks"
      by blast
    note d = followsD[OF fo]
    have "inv w'"
      by (rule invI) (simp_all add: f d i)
    then show ?thesis
      using st f m d ended by auto
  next
    case timeout
    from step_timeout[OF assms timeout(2), of oks] obtain w' where
      st: "step WithProps (WelcomeTimeout, oks) w = Inr w'"
      and f: "currentIndex w' = currentIndex w" "isPlaying w' = isPlaying w"
        "playCount w' = playCount w"
        "\<not> showWelcome w'" "storage w' = storage w" "welcomeTimer w' = None"
      and m: "isMuted w' = (isMuted w \<and> \<not> (fst oks \<and> shouldUnmute w))"
      and fo: "follows w w' True oks"
      by blast
    note d = followsD[OF fo]
    have "inv w'"
      by (rule invI) (simp_all add: f d i)
    then show ?thesis
      using st f m d timeout by auto
  next
    case unmute
    from step_unmute[OF assms unmute(2,3), of oks] obtain w' where
      st: "step WithProps (UnmuteClick, oks) w = Inr w'"
      and f: "currentIndex w' = currentIndex w" "isPlaying w' = isPlaying w"
        "playCount w' = playCount w"
        "showWelcome w' = showWelcome w" "storage w' = (storage w)(''videoMuted'' \<mapsto> ''false'')"
        "welcomeTimer w' = welcomeTimer w"
      and m: "\<not> isMuted w'"
      and fo: "follows w w' False oks"
      by blast
    note d = followsD[OF fo]
    have "inv w'"
      by (rule invI) (simp_all add: f d i)
    then show ?thesis
      using st f m d unmute by auto
  next
    case idle
    from step_idle[OF assms idle, of oks] obtain w' where
      st: "step WithProps (ev, oks) w = Inr w'"
      and f: "currentIndex w' = currentIndex w" "isPlaying w' = isPlaying w"
        "playCount w' = playCount w"
        "showWelcome w' = showWelcome w" "storage w' = storage w"
        "welcomeTimer w' = welcomeTimer w"
      and m: "isMuted w' = isMuted w"
      and fo: "follows w w' False oks"
      by blast
    note d = followsD[OF fo]
    have "inv w'"
      by (rule invI) (simp_all add: f d i)
    then show ?thesis
      using st f m d idle by auto
  qed
qed

section \<open>Sessions\<close>

lemma evolvesD:
  assumes "evolves w w'"
  shows "inv w'" and "videos w' = videos w" and "shouldUnmute w' = shouldUnmute w"
    and "showWelcome w' \<longrightarrow> showWelcome w"
    and "isMuted w' \<longrightarrow> isMuted w"
    and "\<not> shouldUnmute w \<longrightarrow> isMuted w' = isMuted w \<and> storage w' = storage w"
    and "storage w' ''visited'' = storage w ''visited''"
    and "storage w' ''videoMuted'' = storage w ''videoMuted'' \<or> storage w' ''videoMuted'' = Some ''false''"
    and "isMuted w' \<and> el_muted w \<longrightarrow> el_muted w'"
  using assms by (simp_all add: evolves_def)

lemma evolves_refl: "inv w \<Longrightarrow> evolves w w"
  by (simp add: evolves_def)

lemma evolves_trans:
  assumes "evolves w w1" and "evolves w1 w2"
  shows "evolves w w2"
proof -
  note a = evolvesD[OF assms(1)] and b = evolvesD[OF assms(2)]
  show ?thesis
    unfolding evolves_def
  proof (intro conjI)
    show "inv w2" by (rule b(1))
    show "videos w2 = videos w" using a(2) b(2) by simp
    show "shouldUnmute w2 = shouldUnmute w" using a(3) b(3) by simp
    show "showWelcome w2 \<longrightarrow> showWelcome w" using a(4) b(4) by blast
    show "isMuted w2 \<longrightarrow> isMuted w" using a(5) b(5) by blast
    show "\<not> shouldUnmute w \<longrightarrow> isMuted w2 = isMuted w \<and> storage w2 = storage w"
      using a(3,6) b(6) by simp
    show "storage w2 ''visited'' = storage w ''visited''" using a(7) b(7) by simp
    show "storage w2 ''videoMuted'' = storage w ''videoMuted'' \<or> storage w2 ''videoMuted'' = Some ''false''"
      using a(8) b(8) by auto
    show "isMuted w2 \<and> el_muted w \<longrightarrow> el_muted w2" using a(9) b(5,9) by blast
  qed
qed

lemma step_evolves:
  assumes "inv w"
  shows "\<exists>w'. step WithProps inp w = Inr w' \<and> evolves w w'"
proof -
  obtain ev oks where inp: "inp = (ev, oks)" by (cases inp) auto
  from step_any[OF assms, of ev oks] obtain w' where
    st: "step WithProps (ev, oks) w = Inr w'" and i: "inv w'" and v: "videos w' = videos w"
    and u: "shouldUnmute w' = shouldUnmute w"
    and sw: "showWelcome w' = (showWelcome w \<and> ev \<noteq> WelcomeTimeout)"
    and s: "storage w' = (if ev = UnmuteClick \<and> isMuted w \<and> shouldUnmute w
                      then (storage w)(''videoMuted'' \<mapsto> ''false'') else storage w)"
    and m: "isMuted w' = (isMuted w \<and> \<not> (shouldUnmute w \<and> (ev = UnmuteClick \<or> successful_autoplay (new_ops w w'))))"
    and e: "isMuted w' \<and> el_muted w \<longrightarrow> el_muted w'"
    by blast
  have "evolves w w'"
    unfolding evolves_def
  proof (intro conjI)
    show "inv w'" by (rule i)
    show "videos w' = videos w" by (rule v)
    show "shouldUnmute w' = shouldUnmute w" by (rule u)
    show "showWelcome w' \<longrightarrow> showWelcome w" using sw by simp
    show "isMuted w' \<longrightarrow> isMuted w" using m by simp
    show "\<not> shouldUnmute w \<longrightarrow> isMuted w' = isMuted w \<and> storage w' = storage w" using m s by simp
    show "storage w' ''visited'' = storage w ''visited''" using s by simp
    show "storage w' ''videoMuted'' = storage w ''videoMuted'' \<or> storage w' ''videoMuted'' = Some ''false''"
      using s by simp
    show "isMuted w' \<and> el_muted w \<longrightarrow> el_muted w'" by (rule e)
  qed
  then show ?thesis using st inp by blast
qed

lemma run_evolves:
  assumes "inv w"
  shows "\<exists>w'. run WithProps inps w = Inr w' \<and> evolves w w'"
  using assms
proof (induction inps arbitrary: w)
  case Nil
  then show ?case by (simp add: evolves_refl)
next
  case (Cons inp inps)
  from step_evolves[OF Cons.prems, of inp] obtain w1 where
    s: "step WithProps inp w = Inr w1" and e: "evolves w w1" by blast
  then have "inv w1" by (simp add: evolves_def)
  from Cons.IH[OF this] obtain w2 where
    r: "run WithProps inps w1 = Inr w2" and e2: "evolves w1 w2" by blast
  show ?case using s r evolves_trans[OF e e2] by simp
qed


lemma isFirstVisit_facts:
  "\<not> falsy (snd (isFirstVisit st) ''visited'')"
  "snd (isFirstVisit st) ''videoMuted'' = st ''videoMuted''"
  "shouldUnmute_init (snd (isFirstVisit st)) = shouldUnmute_init st"
  "fst (isFirstVisit st) = falsy (st ''visited'')"
  "\<not> falsy (st ''visited'') \<Longrightarrow> snd (isFirstVisit st) = st"
  by (simp_all add: isFirstVisit_def Let_def falsy_def shouldUnmute_init_def)

lemma MoviePlayer_mounts:
  assumes "vs \<noteq> []"
  shows "\<exists>w. MoviePlayer vs first st oks = Inr w
     \<and> videos w = vs \<and> currentIndex w = 0 \<and> isPlaying w \<and> playCount w = 0
     \<and> showWelcome w = first \<and> shouldUnmute w = shouldUnmute_init st \<and> storage w = st
     \<and> welcomeTimer w = (if first then Some 3000 else None)
     \<and> isMuted w = (\<not> (fst oks \<and> shouldUnmute_init st))
     \<and> videoRef w \<noteq> None \<and> el_muted w = isMuted w
     \<and> oplog w = Mounted (url (vs ! 0)) True # attempt_ops True oks"
proof -
  let ?w0 = "initialState vs first st"
  let ?w1 = "mount_el (url (vs ! 0)) ?w0"
  have r0: "in_range ?w0" using assms by (simp add: in_range_def initialState_def)
  have a: "render WithProps ?w0 ?w0 = Inr ?w1"
    by (simp add: render_WithProps[OF r0]) (simp add: initialState_def)
  have v1: "videoRef ?w1 = Some \<lparr>src = url (vs ! 0), muted = True\<rparr>"
    by (simp add: mount_el_def initialState_def)
  define w2 where "w2 = (if fst oks
      then ?w1\<lparr>isMuted := \<not> shouldUnmute_init st, oplog := oplog ?w1 @ attempt_ops True oks,
               welcomeTimer := (if first then Some 3000 else None)\<rparr>
      else ?w1\<lparr>videoRef := Some \<lparr>src = url (vs ! 0), muted = True\<rparr>,
               oplog := oplog ?w1 @ attempt_ops True oks,
               welcomeTimer := (if first then Some 3000 else None)\<rparr>)"
  have b: "mountEffects WithProps oks ?w1 = Inr w2"
    by (simp add: mountEffects_def playEffect_def v1 tryPlayVideo_Some[OF v1] welcomeEffect_def w2_def)
       (simp add: mount_el_def initialState_def)
  have r2: "in_range w2" using assms by (simp add: w2_def in_range_def mount_el_def initialState_def)
  have f2: "videoRef w2 \<noteq> None" "currentIndex w2 = currentIndex ?w1"
    by (simp_all add: w2_def mount_el_def)
  have c: "MoviePlayer vs first st oks = render WithProps ?w1 w2"
    by (simp add: MoviePlayer_def Let_def a b)
  show ?thesis
    unfolding c render_WithProps[OF r2]
    by (simp add: f2) (auto simp: w2_def mount_el_def initialState_def el_muted_def)
qed

lemma App_Player:
  assumes "fetchVideos r \<noteq> []"
  shows "\<exists>w. App st r oks = Player w \<and> inv w
     \<and> videos w = fetchVideos r \<and> currentIndex w = 0 \<and> isPlaying w \<and> playCount w = 0
     \<and> showWelcome w = fst (isFirstVisit st) \<and> shouldUnmute w = shouldUnmute_init st
     \<and> storage w = snd (isFirstVisit st)
     \<and> isMuted w = (\<not> (fst oks \<and> shouldUnmute_init st))
     \<and> el_muted w = isMuted w
     \<and> oplog w = Mounted (url (fetchVideos r ! 0)) True # attempt_ops True oks"
proof -
  obtain first st1 where fv: "isFirstVisit st = (first, st1)" by (cases "isFirstVisit st") auto
  from MoviePlayer_mounts[OF assms, of first st1 oks] obtain w where
    m: "MoviePlayer (fetchVideos r) first st1 oks = Inr w"
    and f: "videos w = fetchVideos r" "currentIndex w = 0" "isPlaying w" "playCount w = 0"
      "showWelcome w = first" "shouldUnmute w = shouldUnmute_init st1" "storage w = st1"
      "welcomeTimer w = (if first then Some 3000 else None)"
      "isMuted w = (\<not> (fst oks \<and> shouldUnmute_init st1))"
      "videoRef w \<noteq> None" "el_muted w = isMuted w"
      "oplog w = Mounted (url (fetchVideos r ! 0)) True # attempt_ops True oks"
    by blast
  have s: "st1 = snd (isFirstVisit st)" "first = fst (isFirstVisit st)" using fv by simp_all
  have a: "App st r oks = Player w"
    using assms m by (simp add: App_def fv)
  have i: "inv w"
    by (rule invI) (use assms f in \<open>simp_all add: s isFirstVisit_facts\<close>)
  show ?thesis
    using a i f by (simp add: s isFirstVisit_facts)
qed

lemma App_NoVideos:
  assumes "fetchVideos r = []"
  shows "App st r oks = NoVideosToDisplay (snd (isFirstVisit st))"
  using assms by (simp add: App_def split: prod.splits)

lemma session_Player:
  assumes "fetchVideos r \<noteq> []"
  obtains w0 w where "App st r oks = Player w0" and "run WithProps inps w0 = Inr w"
    and "session st r oks inps = Player w" and "evolves w0 w" and "inv w0"
proof -
  from App_Player[OF assms, of st oks] obtain w0 where a: "App st r oks = Player w0" and i: "inv w0"
    by blast
  from run_evolves[OF i, of inps] obtain w where r: "run WithProps inps w0 = Inr w" and e: "evolves w0 w"
    by blast
  have "session st r oks inps = Player w" using a r by (simp add: session_def)
  then show ?thesis using that a r e i by blast
qed

lemma session_NoVideos:
  assumes "fetchVideos r = []"
  shows "session st r oks inps = NoVideosToDisplay (snd (isFirstVisit st))"
  using App_NoVideos[OF assms] by (simp add: session_def)

lemma session_PlayerD:
  assumes "session st r oks inps = Player w"
  obtains w0 where "fetchVideos r \<noteq> []" and "App st r oks = Player w0"
    and "run WithProps inps w0 = Inr w" and "evolves w0 w" and "inv w0" and "inv w"
proof (cases "fetchVideos r = []")
  case True
  from session_NoVideos[OF this, of st oks inps] assms show ?thesis by simp
next
  case False
  from session_Player[OF False, of st oks inps] obtain w0 w' where
    a: "App st r oks = Player w0" and r: "run WithProps inps w0 = Inr w'"
    and s: "session st r oks inps = Player w'" and e: "evolves w0 w'" and i: "inv w0" by blast
  from s assms have "w' = w" by simp
  then show ?thesis using that False a r e i evolvesD(1)[OF e] by blast
qed

section \<open>The claims\<close>

lemma example_session_start:
  "session fresh (MovieArray [clip1, clip2, clip3]) (True, True) [] =
     Player \<lparr> videos = [clip1, clip2, clip3], currentIndex = 0, isPlaying = True, showWelcome = True,
       playCount = 0, isMuted = True, shouldUnmute = False,
       videoRef = Some \<lparr>src = ''a.mp4'', muted = True\<rparr>, welcomeTimer = Some 3000, fetchPending = False,
       storage = fresh(''visited'' \<mapsto> ''true''), oplog = [Mounted ''a.mp4'' True, PlayCall True True] \<rparr>"
  by (simp add: session_def App_def isFirstVisit_def falsy_def fresh_def fetchVideos_def MoviePlayer_def
      initialState_def shouldUnmute_init_def render_def mountEffects_def playEffect_def tryPlayVideo_def
      play_def welcomeEffect_def mount_el_def clip1_def Let_def)

text \<open>
  Claim C1. In every state \<open>w\<close> that a session of the application can reach (any storage,
  any non-empty clip list of length \<open>n\<close>, any events before, whether paused, ended or with
  the welcome overlay up), every navigation event (arrow key, swipe or on-screen button)
  is handled without error and leaves \<^verbatim>\<open>currentIndex\<close> at \<open>(currentIndex - 1 + n) mod n\<close> for
  \<^verbatim>\<open>prev\<close> and at \<open>(currentIndex + 1) mod n\<close> for \<^verbatim>\<open>next\<close>: from \<open>0\<close>, \<^verbatim>\<open>prev\<close> yields
  \<open>n - 1\<close>; from \<open>n - 1\<close>, \<^verbatim>\<open>next\<close> yields \<open>0\<close>; the index is in \<open>[0, n)\<close> before and
  after. The event resets \<^verbatim>\<open>playCount\<close> to \<open>0\<close> and sets \<^verbatim>\<open>isPlaying\<close> to true.
\<close>

theorem navigation_wraps:
  assumes "session st r oks0 inps = Player w" and "navigates ev = Some dir"
  shows "\<exists>w'. step WithProps (ev, oks) w = Inr w'
     \<and> videos w = fetchVideos r \<and> videos w' = videos w
     \<and> 0 < int (length (videos w))
     \<and> 0 \<le> currentIndex w \<and> currentIndex w < int (length (videos w))
     \<and> currentIndex w' =
         (case dir of
            Prev \<Rightarrow> (currentIndex w - 1 + int (length (videos w))) mod int (length (videos w))
          | Next \<Rightarrow> (currentIndex w + 1) mod int (length (videos w)))
     \<and> (dir = Prev \<and> currentIndex w = 0 \<longrightarrow> currentIndex w' = int (length (videos w)) - 1)
     \<and> (dir = Next \<and> currentIndex w = int (length (videos w)) - 1 \<longrightarrow> currentIndex w' = 0)
     \<and> 0 \<le> currentIndex w' \<and> currentIndex w' < int (length (videos w))
     \<and> playCount w' = 0 \<and> isPlaying w'"
proof -
  from assms(1) obtain w0 where ne: "fetchVideos r \<noteq> []" and a: "App st r oks0 = Player w0"
    and e: "evolves w0 w" and i: "inv w"
    by (rule session_PlayerD)
  from App_Player[OF ne, of st oks0] a have v0: "videos w0 = fetchVideos r" by auto
  have v: "videos w = fetchVideos r" using evolvesD(2)[OF e] v0 by simp
  note b = invD[OF i]
  from step_nav[OF i assms(2), of oks] obtain w' where
    st: "step WithProps (ev, oks) w = Inr w'"
    and c: "currentIndex w' = currentIndex (handleNavigation dir w)"
    and p: "isPlaying w'" "playCount w' = 0"
    and fo: "follows w w' (currentIndex (handleNavigation dir w) \<noteq> currentIndex w \<or> \<not> isPlaying w) oks"
    by blast
  have ci: "currentIndex w' =
         (case dir of
            Prev \<Rightarrow> (currentIndex w - 1 + int (length (videos w))) mod int (length (videos w))
          | Next \<Rightarrow> (currentIndex w + 1) mod int (length (videos w)))"
    using c handleNavigation_index[OF b(7), of dir] by simp
  have rg: "0 \<le> currentIndex w'" "currentIndex w' < int (length (videos w))"
    using c handleNavigation_range[OF b(7), of dir] by simp_all
  have wp: "dir = Prev \<and> currentIndex w = 0 \<longrightarrow> currentIndex w' = int (length (videos w)) - 1"
    and wn: "dir = Next \<and> currentIndex w = int (length (videos w)) - 1 \<longrightarrow> currentIndex w' = 0"
    unfolding c by (simp_all add: handleNavigation_def Let_def)
  have n: "0 < int (length (videos w))" using b(1,2) by linarith
  from st v followsD(1)[OF fo] n b(1,2) ci wp wn rg p show ?thesis
    by blast
qed

theorem navigation_wraps_witness:
  "\<exists>w w'. session fresh (MovieArray [clip1, clip2, clip3]) (True, True) [] = Player w
     \<and> navigates (KeyDown ArrowLeft) = Some Prev
     \<and> step WithProps (KeyDown ArrowLeft, True, True) w = Inr w'
     \<and> currentIndex w = 0 \<and> currentIndex w' = 2 \<and> playCount w' = 0 \<and> isPlaying w'"
proof -
  note s = example_session_start
  have n: "navigates (KeyDown ArrowLeft) = Some Prev" by simp
  from navigation_wraps[OF s n, of "(True, True)"] show ?thesis
    using s n by auto
qed

text \<open>The definitions that evaluate a concrete session.\<close>

lemmas eval_defs = session_def App_def isFirstVisit_def falsy_def fetchVideos_def MoviePlayer_def
  initialState_def shouldUnmute_init_def render_def mountEffects_def playEffect_def tryPlayVideo_def
  play_def welcomeEffect_def mount_el_def Let_def step_def enabled_def handler_def commit_def effects_def
  handleKeyPress_def handleNavigation_def handleVideoClick_def handleVideoEnd_def welcomeTimeout_def
  unmuteClick_def fetchDone_def on_player_def el_muted_def fresh_def unmuted_before_def
  clip1_def clip2_def clip3_def attempt_ops_def new_ops_def

lemma run_halted:
  assumes "inv w" and "\<not> isPlaying w"
    and "\<forall>inp \<in> set inps. navigates (fst inp) = None \<and> \<not> toggles (fst inp)"
  shows "\<exists>w'. run WithProps inps w = Inr w' \<and> \<not> isPlaying w' \<and> currentIndex w' = currentIndex w"
  using assms
proof (induction inps arbitrary: w)
  case Nil
  then show ?case by simp
next
  case (Cons inp inps)
  obtain ev oks where inp: "inp = (ev, oks)" by (cases inp) auto
  have q: "navigates ev = None \<and> \<not> toggles ev" using Cons.prems(3) inp by simp
  from step_any[OF Cons.prems(1), of ev oks] q obtain w1 where
    s: "step WithProps (ev, oks) w = Inr w1" and i: "inv w1"
    and c: "currentIndex w1 = currentIndex w" and p: "isPlaying w1 \<longrightarrow> isPlaying w"
    by blast
  have p1: "\<not> isPlaying w1" using p Cons.prems(2) by blast
  have r: "\<forall>inp \<in> set inps. navigates (fst inp) = None \<and> \<not> toggles (fst inp)"
    using Cons.prems(3) by simp
  from Cons.IH[OF i p1 r] obtain w2 where
    "run WithProps inps w1 = Inr w2" "\<not> isPlaying w2" "currentIndex w2 = currentIndex w1"
    by blast
  then show ?case using s c inp by simp
qed

text \<open>
  Claim C2, as the code has it. In every state a session can reach the clip-end event is
  handled without error, leaves \<^verbatim>\<open>currentIndex\<close> alone and adds one to \<^verbatim>\<open>playCount\<close>. On the
  first end (the count was \<open>0\<close>) the clip is rewound and exactly one Play Attempt is issued,
  \<^verbatim>\<open>isPlaying\<close> unchanged. On a later end (the count was at least \<open>1\<close>) \<^verbatim>\<open>isPlaying\<close> is
  set to false, no play request is made (the element is paused if it was playing), and
  \<^verbatim>\<open>isPlaying\<close> stays false and \<^verbatim>\<open>currentIndex\<close> stays put through every further sequence
  of events that holds neither a navigation nor a play/pause toggle.
\<close>

theorem clip_end_replays_once_then_halts:
  assumes "session st r oks0 inps = Player w"
  shows "\<exists>w'. step WithProps (Ended, oks) w = Inr w'
     \<and> currentIndex w' = currentIndex w \<and> 0 \<le> playCount w \<and> playCount w' = playCount w + 1
     \<and> (playCount w = 0 \<longrightarrow>
          isPlaying w' = isPlaying w \<and> new_ops w w' = Rewind # attempt_ops (el_muted w) oks)
     \<and> (1 \<le> playCount w \<longrightarrow>
          \<not> isPlaying w' \<and> new_ops w w' = (if isPlaying w then [PauseCall] else [])
          \<and> (\<forall>inps'. (\<forall>inp \<in> set inps'. navigates (fst inp) = None \<and> \<not> toggles (fst inp)) \<longrightarrow>
                (\<exists>w''. run WithProps inps' w' = Inr w'' \<and> \<not> isPlaying w''
                   \<and> currentIndex w'' = currentIndex w)))"
proof -
  have i: "inv w" using assms by (rule session_PlayerD)
  from step_ended[OF i, of oks] obtain w' where
    st: "step WithProps (Ended, oks) w = Inr w'"
    and c: "currentIndex w' = currentIndex w"
    and p: "isPlaying w' = (isPlaying w \<and> playCount w < 1)"
    and k: "playCount w' = playCount w + 1"
    and o: "oplog w' = oplog w @ (if playCount w < 1 then Rewind # attempt_ops (el_muted w) oks
                               else if isPlaying w then [PauseCall] else [])"
    by blast
  from step_any[OF i, of Ended oks] st have i': "inv w'" by auto
  have n: "new_ops w w' = (if playCount w < 1 then Rewind # attempt_ops (el_muted w) oks
                               else if isPlaying w then [PauseCall] else [])"
    by (rule new_ops_append[OF o])
  have a: "playCount w = 0 \<longrightarrow>
          isPlaying w' = isPlaying w \<and> new_ops w w' = Rewind # attempt_ops (el_muted w) oks"
    using p n by simp
  have b: "1 \<le> playCount w \<longrightarrow>
          \<not> isPlaying w' \<and> new_ops w w' = (if isPlaying w then [PauseCall] else [])
          \<and> (\<forall>inps'. (\<forall>inp \<in> set inps'. navigates (fst inp) = None \<and> \<not> toggles (fst inp)) \<longrightarrow>
                (\<exists>w''. run WithProps inps' w' = Inr w'' \<and> \<not> isPlaying w''
                   \<and> currentIndex w'' = currentIndex w))"
  proof
    assume h: "1 \<le> playCount w"
    then have np: "\<not> isPlaying w'" using p by simp
    have "new_ops w w' = (if isPlaying w then [PauseCall] else [])" using n h by simp
    moreover have "\<forall>inps'. (\<forall>inp \<in> set inps'. navigates (fst inp) = None \<and> \<not> toggles (fst inp)) \<longrightarrow>
                (\<exists>w''. run WithProps inps' w' = Inr w'' \<and> \<not> isPlaying w''
                   \<and> currentIndex w'' = currentIndex w)"
      using run_halted[OF i' np] c by simp
    ultimately show "\<not> isPlaying w' \<and> new_ops w w' = (if isPlaying w then [PauseCall] else [])
          \<and> (\<forall>inps'. (\<forall>inp \<in> set inps'. navigates (fst inp) = None \<and> \<not> toggles (fst inp)) \<longrightarrow>
                (\<exists>w''. run WithProps inps' w' = Inr w'' \<and> \<not> isPlaying w''
                   \<and> currentIndex w'' = currentIndex w))"
      using np by blast
  qed
  from st c invD(4)[OF i] k a b show ?thesis by blast
qed

lemma example_session_ended_once:
  "session fresh (MovieArray [clip1, clip2, clip3]) (True, True) [(Ended, True, True)] =
     Player \<lparr> videos = [clip1, clip2, clip3], currentIndex = 0, isPlaying = True, showWelcome = True,
       playCount = 1, isMuted = True, shouldUnmute = False,
       videoRef = Some \<lparr>src = ''a.mp4'', muted = True\<rparr>, welcomeTimer = Some 3000, fetchPending = False,
       storage = fresh(''visited'' \<mapsto> ''true''),
       oplog = [Mounted ''a.mp4'' True, PlayCall True True, Rewind, PlayCall True True] \<rparr>"
  by (simp add: eval_defs)

theorem clip_end_replays_once_then_halts_witness:
  "\<exists>w1 w2 w3 w4.
     session fresh (MovieArray [clip1, clip2, clip3]) (True, True) [] = Player w1
     \<and> playCount w1 = 0
     \<and> step WithProps (Ended, True, True) w1 = Inr w2
     \<and> isPlaying w2 \<and> playCount w2 = 1 \<and> new_ops w1 w2 = [Rewind, PlayCall True True]
     \<and> session fresh (MovieArray [clip1, clip2, clip3]) (True, True) [(Ended, True, True)] = Player w2
     \<and> 1 \<le> playCount w2
     \<and> step WithProps (Ended, True, True) w2 = Inr w3
     \<and> \<not> isPlaying w3 \<and> playCount w3 = 2 \<and> currentIndex w3 = 0 \<and> new_ops w2 w3 = [PauseCall]
     \<and> navigates Ended = None \<and> \<not> toggles Ended
     \<and> navigates UnmuteClick = None \<and> \<not> toggles UnmuteClick
     \<and> run WithProps [(Ended, True, True), (UnmuteClick, True, True)] w3 = Inr w4
     \<and> \<not> isPlaying w4 \<and> currentIndex w4 = 0"
proof -
  note s1 = example_session_start and s2 = example_session_ended_once
  let ?w1 = "\<lparr> videos = [clip1, clip2, clip3], currentIndex = 0, isPlaying = True, showWelcome = True,
       playCount = 0, isMuted = True, shouldUnmute = False,
       videoRef = Some \<lparr>src = ''a.mp4'', muted = True\<rparr>, welcomeTimer = Some 3000, fetchPending = False,
       storage = fresh(''visited'' \<mapsto> ''true''), oplog = [Mounted ''a.mp4'' True, PlayCall True True] \<rparr>"
  let ?w2 = "\<lparr> videos = [clip1, clip2, clip3], currentIndex = 0, isPlaying = True, showWelcome = True,
       playCount = 1, isMuted = True, shouldUnmute = False,
       videoRef = Some \<lparr>src = ''a.mp4'', muted = True\<rparr>, welcomeTimer = Some 3000, fetchPending = False,
       storage = fresh(''visited'' \<mapsto> ''true''),
       oplog = [Mounted ''a.mp4'' True, PlayCall True True, Rewind, PlayCall True True] \<rparr>"
  have e1: "step WithProps (Ended, True, True) ?w1 = Inr ?w2"
    by (simp add: eval_defs)
  from clip_end_replays_once_then_halts[OF s2, of "(True, True)"] obtain w3 where
    st: "step WithProps (Ended, True, True) ?w2 = Inr w3"
    and f: "currentIndex w3 = 0" "playCount w3 = 2" "\<not> isPlaying w3" "new_ops ?w2 w3 = [PauseCall]"
    and h: "\<forall>inps'. (\<forall>inp \<in> set inps'. navigates (fst inp) = None \<and> \<not> toggles (fst inp)) \<longrightarrow>
                (\<exists>w''. run WithProps inps' w3 = Inr w'' \<and> \<not> isPlaying w''
                   \<and> currentIndex w'' = 0)"
    by auto
  have q: "\<forall>inp \<in> set [(Ended, True, True), (UnmuteClick, True, True)].
           navigates (fst inp) = None \<and> \<not> toggles (fst inp)"
    by simp
  from h q obtain w4 where
    r: "run WithProps [(Ended, True, True), (UnmuteClick, True, True)] w3 = Inr w4"
    and g: "\<not> isPlaying w4" "currentIndex w4 = 0"
    by blast
  from clip_end_replays_once_then_halts[OF s1, of "(True, True)"] e1
  have n1: "new_ops ?w1 ?w2 = [Rewind, PlayCall True True]"
    by (simp add: attempt_ops_def el_muted_def)
  show ?thesis
    using s1 s2 e1 st f r g n1 by (intro exI[of _ ?w1] exI[of _ ?w2] exI[of _ w3] exI[of _ w4]) simp
qed

text \<open>
  Claim C2 as stated lets only a navigation end the halt. After two clip ends the space
  bar, which navigates nowhere, sets \<^verbatim>\<open>isPlaying\<close> back to true and plays the clip again.
\<close>

theorem clip_end_halts_until_navigation_counterexample:
  "on_player isPlaying (session fresh (MovieArray [clip1, clip2, clip3]) (True, True)
       [(Ended, True, True), (Ended, True, True)]) = Some False
   \<and> navigates (KeyDown Space) = None
   \<and> on_player isPlaying (session fresh (MovieArray [clip1, clip2, clip3]) (True, True)
       [(Ended, True, True), (Ended, True, True), (KeyDown Space, True, True)]) = Some True
   \<and> on_player oplog (session fresh (MovieArray [clip1, clip2, clip3]) (True, True)
       [(Ended, True, True), (Ended, True, True), (KeyDown Space, True, True)])
     = Some [Mounted ''a.mp4'' True, PlayCall True True, Rewind, PlayCall True True, PauseCall,
             PlayCall True True]"
  by (simp add: eval_defs)

lemma session_inv:
  assumes "session st r oks inps = Player w"
  shows "inv w"
  using assms by (rule session_PlayerD)

text \<open>
  Claim C3, as the code has it. A Play Attempt on a mounted element never raises, in
  either variant of the player, and leaves every state cell but \<^verbatim>\<open>isMuted\<close> as it was,
  \<^verbatim>\<open>isPlaying\<close> among them. If the request succeeds and \<^verbatim>\<open>shouldUnmute\<close> holds,
  \<^verbatim>\<open>isMuted\<close> becomes false; if it succeeds and \<^verbatim>\<open>shouldUnmute\<close> does not hold, \<^verbatim>\<open>isMuted\<close>
  is unchanged. If it fails, the \<^verbatim>\<open>muted\<close> property of the element is forced to true, the
  state cell \<^verbatim>\<open>isMuted\<close> is left as it was, and playback is retried exactly once, muted;
  whether the retry succeeds or fails changes nothing further.
\<close>

theorem play_attempt_protocol:
  assumes "videoRef w = Some el"
  shows "\<exists>w'. tryPlayVideo v oks w = Inr w'
     \<and> core w' = core w \<and> isPlaying w' = isPlaying w \<and> welcomeTimer w' = welcomeTimer w
     \<and> (fst oks \<and> shouldUnmute w \<longrightarrow> \<not> isMuted w')
     \<and> (fst oks \<and> \<not> shouldUnmute w \<longrightarrow> isMuted w' = isMuted w)
     \<and> (fst oks \<longrightarrow> videoRef w' = Some el \<and> oplog w' = oplog w @ [PlayCall (muted el) True])
     \<and> (\<not> fst oks \<longrightarrow> isMuted w' = isMuted w \<and> videoRef w' = Some (el\<lparr>muted := True\<rparr>)
           \<and> oplog w' = oplog w @ [PlayCall (muted el) False, SetMuted, PlayCall True (snd oks)])"
  unfolding tryPlayVideo_Some[OF assms]
  using assms by (cases "fst oks") (simp_all add: core_def attempt_ops_def)

theorem play_attempt_protocol_witness:
  "videoRef (mount_el ''a.mp4'' (initialState [clip1] False unmuted_before)\<lparr>isMuted := False\<rparr>)
     = Some \<lparr>src = ''a.mp4'', muted = True\<rparr>
   \<and> (\<exists>w'. tryPlayVideo WithProps (False, False)
              (mount_el ''a.mp4'' (initialState [clip1] False unmuted_before)\<lparr>isMuted := False\<rparr>) = Inr w'
         \<and> \<not> isMuted w' \<and> isPlaying w' \<and> videoRef w' = Some \<lparr>src = ''a.mp4'', muted = True\<rparr>
         \<and> oplog w' = [Mounted ''a.mp4'' True, PlayCall True False, SetMuted, PlayCall True False])
   \<and> (\<exists>w'. tryPlayVideo WithProps (True, True)
              (mount_el ''a.mp4'' (initialState [clip1] False unmuted_before)) = Inr w'
         \<and> \<not> isMuted w')
   \<and> (\<exists>w'. tryPlayVideo WithProps (True, True)
              (mount_el ''a.mp4'' (initialState [clip1] False fresh)) = Inr w'
         \<and> isMuted w')"
proof -
  let ?a = "mount_el ''a.mp4'' (initialState [clip1] False unmuted_before)\<lparr>isMuted := False\<rparr>"
  let ?b = "mount_el ''a.mp4'' (initialState [clip1] False unmuted_before)"
  let ?c = "mount_el ''a.mp4'' (initialState [clip1] False fresh)"
  let ?el = "\<lparr>src = ''a.mp4'', muted = True\<rparr>"
  have va: "videoRef ?a = Some ?el" and vb: "videoRef ?b = Some ?el" and vc: "videoRef ?c = Some ?el"
    by (simp_all add: mount_el_def initialState_def)
  have fa: "\<not> isMuted ?a" "isPlaying ?a" "oplog ?a = [Mounted ''a.mp4'' True]"
    and fb: "shouldUnmute ?b" and fc: "\<not> shouldUnmute ?c" "isMuted ?c"
    by (simp_all add: mount_el_def initialState_def shouldUnmute_init_def unmuted_before_def fresh_def)
  from play_attempt_protocol[OF va, of WithProps "(False, False)"] fa
  have a: "\<exists>w'. tryPlayVideo WithProps (False, False) ?a = Inr w'
         \<and> \<not> isMuted w' \<and> isPlaying w' \<and> videoRef w' = Some \<lparr>src = ''a.mp4'', muted = True\<rparr>
         \<and> oplog w' = [Mounted ''a.mp4'' True, PlayCall True False, SetMuted, PlayCall True False]"
    by auto
  from play_attempt_protocol[OF vb, of WithProps "(True, True)"] fb
  have b: "\<exists>w'. tryPlayVideo WithProps (True, True) ?b = Inr w' \<and> \<not> isMuted w'"
    by auto
  from play_attempt_protocol[OF vc, of WithProps "(True, True)"] fc
  have c: "\<exists>w'. tryPlayVideo WithProps (True, True) ?c = Inr w' \<and> isMuted w'"
    by auto
  show ?thesis using va a b c by blast
qed

text \<open>
  Claim C3 as stated has a failed request force \<^verbatim>\<open>isMuted\<close> to true and a failed retry
  leave \<^verbatim>\<open>isPlaying\<close> true. With the unmuted preference stored, the first autoplay clears
  \<^verbatim>\<open>isMuted\<close>; when the replay after the first clip end is refused, the element is muted
  and retried, and \<^verbatim>\<open>isMuted\<close> is still false. And on a first visit, paused with the space
  bar before the welcome timer fires, the timer's attempt fails twice and \<^verbatim>\<open>isPlaying\<close> is
  false as before.
\<close>

theorem play_attempt_forces_isMuted_counterexample:
  "on_player isMuted (session unmuted_before (MovieArray [clip1]) (True, True) []) = Some False
   \<and> on_player isMuted (session unmuted_before (MovieArray [clip1]) (True, True)
        [(Ended, False, True)]) = Some False
   \<and> on_player el_muted (session unmuted_before (MovieArray [clip1]) (True, True)
        [(Ended, False, True)]) = Some True
   \<and> on_player oplog (session unmuted_before (MovieArray [clip1]) (True, True)
        [(Ended, False, True)])
       = Some [Mounted ''a.mp4'' True, PlayCall True True, Rewind, PlayCall False False, SetMuted,
               PlayCall True True]
   \<and> on_player isPlaying (session fresh (MovieArray [clip1]) (True, True)
        [(KeyDown Space, True, True), (WelcomeTimeout, False, False)]) = Some False
   \<and> on_player oplog (session fresh (MovieArray [clip1]) (True, True)
        [(KeyDown Space, True, True), (WelcomeTimeout, False, False)])
       = Some [Mounted ''a.mp4'' True, PlayCall True True, PauseCall, PlayCall True False, SetMuted,
               PlayCall True False]"
  by (simp add: eval_defs)

text \<open>
  Claim C9, as the code has it. In every state a session can reach, a play/pause toggle
  (space bar, or a click on the surface that is not on a button) flips \<^verbatim>\<open>isPlaying\<close> and
  leaves \<^verbatim>\<open>currentIndex\<close>, \<^verbatim>\<open>playCount\<close>, the welcome flag, the clip list and the storage
  alone. Turning playback off pauses the element and leaves \<^verbatim>\<open>isMuted\<close> alone; turning it
  on issues one Play Attempt, which clears \<^verbatim>\<open>isMuted\<close> exactly when its request succeeds
  and \<^verbatim>\<open>shouldUnmute\<close> holds.
\<close>

theorem toggle_frame:
  assumes "session st r oks0 inps = Player w" and "toggles ev"
  shows "\<exists>w'. step WithProps (ev, oks) w = Inr w'
     \<and> isPlaying w' = (\<not> isPlaying w)
     \<and> currentIndex w' = currentIndex w \<and> playCount w' = playCount w
     \<and> showWelcome w' = showWelcome w \<and> shouldUnmute w' = shouldUnmute w
     \<and> videos w' = videos w \<and> storage w' = storage w
     \<and> isMuted w' = (isMuted w \<and> \<not> (\<not> isPlaying w \<and> fst oks \<and> shouldUnmute w))
     \<and> new_ops w w' = (if isPlaying w then [PauseCall] else attempt_ops (el_muted w) oks)"
proof -
  have i: "inv w" by (rule session_inv[OF assms(1)])
  from step_toggle[OF i assms(2), of oks] obtain w' where
    st: "step WithProps (ev, oks) w = Inr w'"
    and f: "currentIndex w' = currentIndex w" "isPlaying w' = (\<not> isPlaying w)"
      "playCount w' = playCount w" "showWelcome w' = showWelcome w" "storage w' = storage w"
    and m: "isMuted w' = (isMuted w \<and> \<not> (\<not> isPlaying w \<and> fst oks \<and> shouldUnmute w))"
    and o: "oplog w' = oplog w @ (if isPlaying w then [PauseCall] else attempt_ops (el_muted w) oks)"
    and fo: "follows w w' (\<not> isPlaying w) oks"
    by blast
  from st f m new_ops_append[OF o] followsD(1,2)[OF fo] show ?thesis by blast
qed

theorem toggle_frame_witness:
  "\<exists>w w'. session fresh (MovieArray [clip1, clip2, clip3]) (True, True) [] = Player w
     \<and> toggles (KeyDown Space)
     \<and> step WithProps (KeyDown Space, True, True) w = Inr w'
     \<and> isPlaying w \<and> \<not> isPlaying w' \<and> currentIndex w' = 0 \<and> playCount w' = 0 \<and> isMuted w'
     \<and> new_ops w w' = [PauseCall]"
proof -
  note s = example_session_start
  have t: "toggles (KeyDown Space)" by simp
  from toggle_frame[OF s t, of "(True, True)"] show ?thesis
    using s t by auto
qed

text \<open>
  Claim C9 as stated has the toggle leave \<^verbatim>\<open>isMuted\<close> alone in every state. With the
  unmuted preference stored and the autoplay at mount refused, a pause followed by a
  toggle back on, whose play request succeeds, clears \<^verbatim>\<open>isMuted\<close>.
\<close>

theorem toggle_changes_isMuted_counterexample:
  "toggles (KeyDown Space)
   \<and> on_player isMuted (session unmuted_before (MovieArray [clip1]) (False, True)
        [(KeyDown Space, True, True)]) = Some True
   \<and> on_player isMuted (session unmuted_before (MovieArray [clip1]) (False, True)
        [(KeyDown Space, True, True), (KeyDown Space, True, True)]) = Some False"
  by (simp add: eval_defs)

lemma session_shouldUnmute:
  assumes "session st r oks inps = Player w"
  shows "shouldUnmute w = (st ''videoMuted'' = Some ''false'')"
proof -
  from assms obtain w0 where ne: "fetchVideos r \<noteq> []" and a: "App st r oks = Player w0"
    and e: "evolves w0 w"
    by (rule session_PlayerD)
  from App_Player[OF ne, of st oks] a have "shouldUnmute w0 = shouldUnmute_init st" by auto
  then show ?thesis using evolvesD(3)[OF e] by (simp add: shouldUnmute_init_def)
qed

lemma session_muted_without_preference:
  assumes "session st r oks inps = Player w" and "st ''videoMuted'' \<noteq> Some ''false''"
  shows "isMuted w" and "el_muted w" and "storage w ''videoMuted'' = st ''videoMuted''"
proof -
  from assms(1) obtain w0 where ne: "fetchVideos r \<noteq> []" and a: "App st r oks = Player w0"
    and e: "evolves w0 w"
    by (rule session_PlayerD)
  from App_Player[OF ne, of st oks] a have
    f: "shouldUnmute w0 = shouldUnmute_init st" "isMuted w0 = (\<not> (fst oks \<and> shouldUnmute_init st))"
      "el_muted w0 = isMuted w0" "storage w0 = snd (isFirstVisit st)"
    by auto
  have n: "\<not> shouldUnmute w0" "isMuted w0" "el_muted w0"
    using f assms(2) by (simp_all add: shouldUnmute_init_def)
  note d = evolvesD[OF e]
  show m: "isMuted w" using d(6) n by simp
  show "el_muted w" using d(9) m n by simp
  show "storage w ''videoMuted'' = st ''videoMuted''"
    using d(6) n f(4) by (simp add: isFirstVisit_facts)
qed

text \<open>
  Claim C4, read on the state cell \<^verbatim>\<open>isMuted\<close> (the \<^verbatim>\<open>muted\<close> property of the element is a
  different thing, see C3). In every state \<open>w\<close> of every session: \<^verbatim>\<open>shouldUnmute\<close> is what
  the storage held under \<^verbatim>\<open>videoMuted\<close> when the session started; right after mount
  \<^verbatim>\<open>isMuted\<close> is false exactly when that preference was stored and the first autoplay
  succeeded unforced; every event is handled without error; once \<^verbatim>\<open>isMuted\<close> is false no
  event makes it true again; and while it is true, an event clears it exactly when
  \<^verbatim>\<open>shouldUnmute\<close> holds and the event is the click on the unmute control or brought a
  successful unforced autoplay. Without the stored preference \<^verbatim>\<open>isMuted\<close> is true throughout
  and the unmute control is never there to be clicked.
\<close>

theorem mute_invariant:
  assumes "session st r oks0 inps = Player w"
  shows "shouldUnmute w = (st ''videoMuted'' = Some ''false'')
     \<and> (inps = [] \<longrightarrow> isMuted w = (\<not> (shouldUnmute w \<and> successful_autoplay (oplog w))))
     \<and> (st ''videoMuted'' \<noteq> Some ''false'' \<longrightarrow> isMuted w \<and> \<not> enabled WithProps UnmuteClick w)
     \<and> (\<exists>w'. step WithProps (ev, oks) w = Inr w'
          \<and> shouldUnmute w' = shouldUnmute w
          \<and> (\<not> isMuted w \<longrightarrow> \<not> isMuted w')
          \<and> (isMuted w \<longrightarrow>
                (\<not> isMuted w') = (shouldUnmute w \<and> (ev = UnmuteClick \<or> successful_autoplay (new_ops w w')))))"
proof -
  have i: "inv w" by (rule session_inv[OF assms])
  have a: "shouldUnmute w = (st ''videoMuted'' = Some ''false'')"
    by (rule session_shouldUnmute[OF assms])
  have b: "inps = [] \<longrightarrow> isMuted w = (\<not> (shouldUnmute w \<and> successful_autoplay (oplog w)))"
  proof
    assume e: "inps = []"
    from assms obtain w0 where ne: "fetchVideos r \<noteq> []" and p: "App st r oks0 = Player w0"
      and r: "run WithProps inps w0 = Inr w"
      by (rule session_PlayerD)
    have w: "w0 = w" using r e by simp
    from App_Player[OF ne, of st oks0] p w have
      f: "shouldUnmute w = shouldUnmute_init st" "isMuted w = (\<not> (fst oks0 \<and> shouldUnmute_init st))"
        "oplog w = Mounted (url (fetchVideos r ! 0)) True # attempt_ops True oks0"
      by auto
    show "isMuted w = (\<not> (shouldUnmute w \<and> successful_autoplay (oplog w)))"
      using f by (auto simp: successful_autoplay_simps)
  qed
  have c: "st ''videoMuted'' \<noteq> Some ''false'' \<longrightarrow> isMuted w \<and> \<not> enabled WithProps UnmuteClick w"
    using session_muted_without_preference(1)[OF assms] a by (auto simp: enabled_def)
  from step_any[OF i, of ev oks] obtain w' where
    st: "step WithProps (ev, oks) w = Inr w'" and u: "shouldUnmute w' = shouldUnmute w"
    and m: "isMuted w' = (isMuted w \<and> \<not> (shouldUnmute w \<and> (ev = UnmuteClick \<or> successful_autoplay (new_ops w w'))))"
    by blast
  have d: "\<not> isMuted w \<longrightarrow> \<not> isMuted w'" using m by simp
  have e: "isMuted w \<longrightarrow>
                (\<not> isMuted w') = (shouldUnmute w \<and> (ev = UnmuteClick \<or> successful_autoplay (new_ops w w')))"
    using m by simp
  from a b c st u d e show ?thesis by blast
qed

lemma example_session_unmuted_before:
  "session unmuted_before (MovieArray [clip1]) (False, True) [] =
     Player \<lparr> videos = [clip1], currentIndex = 0, isPlaying = True, showWelcome = False,
       playCount = 0, isMuted = True, shouldUnmute = True,
       videoRef = Some \<lparr>src = ''a.mp4'', muted = True\<rparr>, welcomeTimer = None, fetchPending = False,
       storage = unmuted_before,
       oplog = [Mounted ''a.mp4'' True, PlayCall True False, SetMuted, PlayCall True True] \<rparr>"
  by (simp add: eval_defs)

theorem mute_invariant_witness:
  "(\<exists>w w' w''. session unmuted_before (MovieArray [clip1]) (False, True) [] = Player w
     \<and> shouldUnmute w \<and> isMuted w \<and> \<not> successful_autoplay (oplog w)
     \<and> step WithProps (Ended, True, True) w = Inr w'
     \<and> successful_autoplay (new_ops w w') \<and> \<not> isMuted w'
     \<and> step WithProps (UnmuteClick, True, True) w = Inr w'' \<and> \<not> isMuted w'')
   \<and> (\<exists>w w'. session fresh (MovieArray [clip1, clip2, clip3]) (True, True) [] = Player w
     \<and> fresh ''videoMuted'' \<noteq> Some ''false''
     \<and> isMuted w \<and> \<not> enabled WithProps UnmuteClick w
     \<and> step WithProps (Ended, True, True) w = Inr w' \<and> isMuted w')"
proof -
  note s = example_session_unmuted_before
  let ?w = "\<lparr> videos = [clip1], currentIndex = 0, isPlaying = True, showWelcome = False,
       playCount = 0, isMuted = True, shouldUnmute = True,
       videoRef = Some \<lparr>src = ''a.mp4'', muted = True\<rparr>, welcomeTimer = None, fetchPending = False,
       storage = unmuted_before,
       oplog = [Mounted ''a.mp4'' True, PlayCall True False, SetMuted, PlayCall True True] \<rparr>"
  have n: "\<not> successful_autoplay (oplog ?w)" by (simp add: successful_autoplay_def)
  from mute_invariant[OF s, of Ended "(True, True)"] obtain w' where
    a: "step WithProps (Ended, True, True) ?w = Inr w'"
    and b: "(\<not> isMuted w') = successful_autoplay (new_ops ?w w')"
    by auto
  have c: "new_ops ?w w' = [Rewind, PlayCall True True]"
    using a by (auto simp: eval_defs)
  have d: "successful_autoplay (new_ops ?w w')" unfolding c by (simp add: successful_autoplay_def)
  from mute_invariant[OF s, of UnmuteClick "(True, True)"] obtain w'' where
    e: "step WithProps (UnmuteClick, True, True) ?w = Inr w''" and f: "\<not> isMuted w''"
    by auto
  have p1: "\<exists>w w' w''. session unmuted_before (MovieArray [clip1]) (False, True) [] = Player w
     \<and> shouldUnmute w \<and> isMuted w \<and> \<not> successful_autoplay (oplog w)
     \<and> step WithProps (Ended, True, True) w = Inr w'
     \<and> successful_autoplay (new_ops w w') \<and> \<not> isMuted w'
     \<and> step WithProps (UnmuteClick, True, True) w = Inr w'' \<and> \<not> isMuted w''"
    using s n a b d e f by (intro exI[of _ ?w] exI[of _ w'] exI[of _ w'']) simp
  note s2 = example_session_start
  have g: "fresh ''videoMuted'' \<noteq> Some ''false''" by (simp add: fresh_def)
  from mute_invariant[OF s2, of Ended "(True, True)"] g
  have p2: "\<exists>w w'. session fresh (MovieArray [clip1, clip2, clip3]) (True, True) [] = Player w
     \<and> fresh ''videoMuted'' \<noteq> Some ''false''
     \<and> isMuted w \<and> \<not> enabled WithProps UnmuteClick w
     \<and> step WithProps (Ended, True, True) w = Inr w' \<and> isMuted w'"
    using s2 by auto
  from p1 p2 show ?thesis by blast
qed

lemma hasVisitedBefore_fst: "fst (hasVisitedBefore st) = (\<not> fst (isFirstVisit st))"
  by (simp add: hasVisitedBefore_def split: prod.splits)

lemma session_visited:
  assumes "\<not> falsy (st ''visited'')"
  shows "(\<exists>w. session st r oks inps = Player w \<and> \<not> showWelcome w \<and> \<not> falsy (storage w ''visited''))
       \<or> session st r oks inps = NoVideosToDisplay st"
proof (cases "fetchVideos r = []")
  case True
  then show ?thesis
    using session_NoVideos[OF True, of st oks inps] isFirstVisit_facts(5)[of st, OF assms] by simp
next
  case False
  from session_Player[OF False, of st oks inps] obtain w0 w where
    a: "App st r oks = Player w0" and s: "session st r oks inps = Player w" and e: "evolves w0 w"
    by blast
  from App_Player[OF False, of st oks] a have "showWelcome w0 = fst (isFirstVisit st)" by auto
  then have "\<not> showWelcome w0" using assms by (simp add: isFirstVisit_facts)
  then have "\<not> showWelcome w" using evolvesD(4)[OF e] by blast
  moreover have "\<not> falsy (storage w ''visited'')" using invD(6)[OF evolvesD(1)[OF e]] .
  ultimately show ?thesis using s by blast
qed

lemma lifetime_visited:
  assumes "\<not> falsy (st ''visited'')"
  shows "\<forall>sc \<in> set (lifetime st ss). (\<forall>w. sc = Player w \<longrightarrow> \<not> showWelcome w) \<and> (\<forall>e. sc \<noteq> Crashed e)"
  using assms
proof (induction ss arbitrary: st)
  case Nil
  then show ?case by simp
next
  case (Cons s ss)
  obtain r oks inps where s: "s = (r, oks, inps)" by (cases s) auto
  from session_visited[of st r oks inps, OF Cons.prems] show ?case
  proof
    assume "\<exists>w. session st r oks inps = Player w \<and> \<not> showWelcome w \<and> \<not> falsy (storage w ''visited'')"
    then obtain w where a: "session st r oks inps = Player w" and b: "\<not> showWelcome w"
      and c: "\<not> falsy (storage w ''visited'')" by blast
    from Cons.IH[of "storage w", OF c] a b show ?thesis by (simp add: s)
  next
    assume a: "session st r oks inps = NoVideosToDisplay st"
    from Cons.IH[of st, OF Cons.prems] a show ?thesis by (simp add: s)
  qed
qed

lemma welcome_overlay_player:
  assumes "session st r oks0 inps = Player w"
  shows "(\<exists>w0. App st r oks0 = Player w0 \<and> showWelcome w0 = (\<not> fst (hasVisitedBefore st)))
     \<and> (showWelcome w \<longrightarrow> \<not> fst (hasVisitedBefore st))
     \<and> welcomeTimer w = (if showWelcome w then Some 3000 else None)
     \<and> (\<exists>w'. step WithProps (ev, oks) w = Inr w'
          \<and> showWelcome w' = (showWelcome w \<and> ev \<noteq> WelcomeTimeout)
          \<and> (showWelcome w \<and> ev = WelcomeTimeout \<longrightarrow>
                welcomeTimer w' = None \<and> new_ops w w' = attempt_ops (el_muted w) oks))
     \<and> (\<forall>ss. \<forall>sc \<in> set (lifetime (storage w) ss).
           (\<forall>w2. sc = Player w2 \<longrightarrow> \<not> showWelcome w2) \<and> (\<forall>e. sc \<noteq> Crashed e))"
proof -
  from assms obtain w0 where ne: "fetchVideos r \<noteq> []" and p: "App st r oks0 = Player w0"
    and e: "evolves w0 w" and i: "inv w"
    by (rule session_PlayerD)
  from App_Player[OF ne, of st oks0] p have f: "showWelcome w0 = fst (isFirstVisit st)" by auto
  have a: "\<exists>w0. App st r oks0 = Player w0 \<and> showWelcome w0 = (\<not> fst (hasVisitedBefore st))"
    using p f by (simp add: hasVisitedBefore_fst)
  have b: "showWelcome w \<longrightarrow> \<not> fst (hasVisitedBefore st)"
    using evolvesD(4)[OF e] f by (simp add: hasVisitedBefore_fst)
  have c: "welcomeTimer w = (if showWelcome w then Some 3000 else None)"
    by (rule invD(5)[OF i])
  have d: "\<exists>w'. step WithProps (ev, oks) w = Inr w'
          \<and> showWelcome w' = (showWelcome w \<and> ev \<noteq> WelcomeTimeout)
          \<and> (showWelcome w \<and> ev = WelcomeTimeout \<longrightarrow>
                welcomeTimer w' = None \<and> new_ops w w' = attempt_ops (el_muted w) oks)"
  proof (cases "showWelcome w \<and> ev = WelcomeTimeout")
    case True
    from step_timeout[OF i, of oks] True obtain w' where
      "step WithProps (ev, oks) w = Inr w'" "\<not> showWelcome w'" "welcomeTimer w' = None"
      "oplog w' = oplog w @ attempt_ops (el_muted w) oks"
      by blast
    then show ?thesis using True new_ops_append by blast
  next
    case False
    from step_any[OF i, of ev oks] obtain w' where
      "step WithProps (ev, oks) w = Inr w'" "showWelcome w' = (showWelcome w \<and> ev \<noteq> WelcomeTimeout)"
      by blast
    then show ?thesis using False by blast
  qed
  have g: "\<forall>ss. \<forall>sc \<in> set (lifetime (storage w) ss).
           (\<forall>w2. sc = Player w2 \<longrightarrow> \<not> showWelcome w2) \<and> (\<forall>e. sc \<noteq> Crashed e)"
    using lifetime_visited[of "storage w", OF invD(6)[OF i]] by blast
  from a b c d g show ?thesis by blast
qed

lemma example_later_session:
  "lifetime (fresh(''visited'' \<mapsto> ''true'')) [(MovieArray [clip1], (True, True), [])] =
     [Player \<lparr> videos = [clip1], currentIndex = 0, isPlaying = True, showWelcome = False,
       playCount = 0, isMuted = True, shouldUnmute = False,
       videoRef = Some \<lparr>src = ''a.mp4'', muted = True\<rparr>, welcomeTimer = None, fetchPending = False,
       storage = fresh(''visited'' \<mapsto> ''true''), oplog = [Mounted ''a.mp4'' True, PlayCall True True] \<rparr>]"
  by (simp add: eval_defs)

lemma example_session_no_videos:
  "session fresh NetworkError (True, True) [] = NoVideosToDisplay (fresh(''visited'' \<mapsto> ''true''))"
  by (simp add: eval_defs)

text \<open>
  Claim C5, as the code has it. The overlay is showing at the start of a session exactly
  when \<^verbatim>\<open>hasVisitedBefore()\<close> returned false and the clip list is not empty. With an empty
  list (also after a failed fetch) the application mounts no player: whatever the events,
  the session stays on its "no videos" screen with the storage the call left, no overlay
  shows, and none shows in any session that follows on that storage, although the call
  has written the marker. With a non-empty list a player is mounted and stays so. In every
  state such a session can reach, the overlay is showing only if \<^verbatim>\<open>hasVisitedBefore()\<close>
  returned false, and while it is showing a timer of 3000 ms is pending and otherwise
  none. Every event is handled without error and leaves the overlay showing exactly when
  it was showing and the event is not the timer firing: only the timer dismisses it, and
  nothing shows it again. When the timer fires on a showing overlay, no timer is pending
  afterwards and exactly one Play Attempt is issued. In any sessions that follow on the
  storage a session leaves, the overlay shows at no point, and none of them crashes.
\<close>

theorem welcome_overlay:
  "on_player showWelcome (App st r oks0)
     = (if fetchVideos r = [] then None else Some (\<not> fst (hasVisitedBefore st)))
   \<and> (fetchVideos r = [] \<longrightarrow>
        session st r oks0 inps = NoVideosToDisplay (snd (hasVisitedBefore st))
        \<and> (\<forall>ss. \<forall>sc \<in> set (lifetime (snd (hasVisitedBefore st)) ss).
              (\<forall>w2. sc = Player w2 \<longrightarrow> \<not> showWelcome w2) \<and> (\<forall>e. sc \<noteq> Crashed e)))
   \<and> (fetchVideos r \<noteq> [] \<longrightarrow> (\<exists>w1. session st r oks0 inps = Player w1))
   \<and> (session st r oks0 inps = Player w \<longrightarrow>
        (\<exists>w0. App st r oks0 = Player w0 \<and> showWelcome w0 = (\<not> fst (hasVisitedBefore st)))
        \<and> (showWelcome w \<longrightarrow> \<not> fst (hasVisitedBefore st))
        \<and> welcomeTimer w = (if showWelcome w then Some 3000 else None)
        \<and> (\<exists>w'. step WithProps (ev, oks) w = Inr w'
             \<and> showWelcome w' = (showWelcome w \<and> ev \<noteq> WelcomeTimeout)
             \<and> (showWelcome w \<and> ev = WelcomeTimeout \<longrightarrow>
                   welcomeTimer w' = None \<and> new_ops w w' = attempt_ops (el_muted w) oks))
        \<and> (\<forall>ss. \<forall>sc \<in> set (lifetime (storage w) ss).
              (\<forall>w2. sc = Player w2 \<longrightarrow> \<not> showWelcome w2) \<and> (\<forall>e. sc \<noteq> Crashed e)))"
proof -
  have hs: "snd (hasVisitedBefore st) = snd (isFirstVisit st)"
    by (simp add: hasVisitedBefore_def split: prod.splits)
  have a: "on_player showWelcome (App st r oks0)
     = (if fetchVideos r = [] then None else Some (\<not> fst (hasVisitedBefore st)))"
  proof (cases "fetchVideos r = []")
    case True
    then show ?thesis using App_NoVideos[OF True, of st oks0] by (simp add: on_player_def)
  next
    case False
    from App_Player[OF False, of st oks0] obtain w0 where
      "App st r oks0 = Player w0" "showWelcome w0 = fst (isFirstVisit st)" by blast
    then show ?thesis using False by (simp add: on_player_def hasVisitedBefore_fst)
  qed
  have b: "fetchVideos r = [] \<longrightarrow>
        session st r oks0 inps = NoVideosToDisplay (snd (hasVisitedBefore st))
        \<and> (\<forall>ss. \<forall>sc \<in> set (lifetime (snd (hasVisitedBefore st)) ss).
              (\<forall>w2. sc = Player w2 \<longrightarrow> \<not> showWelcome w2) \<and> (\<forall>e. sc \<noteq> Crashed e))"
  proof
    assume e: "fetchVideos r = []"
    have n: "\<not> falsy (snd (hasVisitedBefore st) ''visited'')"
      unfolding hs by (rule isFirstVisit_facts(1))
    have "session st r oks0 inps = NoVideosToDisplay (snd (hasVisitedBefore st))"
      unfolding hs by (rule session_NoVideos[OF e])
    moreover have "\<forall>ss. \<forall>sc \<in> set (lifetime (snd (hasVisitedBefore st)) ss).
              (\<forall>w2. sc = Player w2 \<longrightarrow> \<not> showWelcome w2) \<and> (\<forall>e. sc \<noteq> Crashed e)"
      using lifetime_visited[of "snd (hasVisitedBefore st)", OF n] by blast
    ultimately show "session st r oks0 inps = NoVideosToDisplay (snd (hasVisitedBefore st))
        \<and> (\<forall>ss. \<forall>sc \<in> set (lifetime (snd (hasVisitedBefore st)) ss).
              (\<forall>w2. sc = Player w2 \<longrightarrow> \<not> showWelcome w2) \<and> (\<forall>e. sc \<noteq> Crashed e))"
      by blast
  qed
  have c: "fetchVideos r \<noteq> [] \<longrightarrow> (\<exists>w1. session st r oks0 inps = Player w1)"
  proof
    assume "fetchVideos r \<noteq> []"
    from session_Player[OF this, of st oks0 inps] show "\<exists>w1. session st r oks0 inps = Player w1"
      by blast
  qed
  have d: "session st r oks0 inps = Player w \<longrightarrow>
        (\<exists>w0. App st r oks0 = Player w0 \<and> showWelcome w0 = (\<not> fst (hasVisitedBefore st)))
        \<and> (showWelcome w \<longrightarrow> \<not> fst (hasVisitedBefore st))
        \<and> welcomeTimer w = (if showWelcome w then Some 3000 else None)
        \<and> (\<exists>w'. step WithProps (ev, oks) w = Inr w'
             \<and> showWelcome w' = (showWelcome w \<and> ev \<noteq> WelcomeTimeout)
             \<and> (showWelcome w \<and> ev = WelcomeTimeout \<longrightarrow>
                   welcomeTimer w' = None \<and> new_ops w w' = attempt_ops (el_muted w) oks))
        \<and> (\<forall>ss. \<forall>sc \<in> set (lifetime (storage w) ss).
              (\<forall>w2. sc = Player w2 \<longrightarrow> \<not> showWelcome w2) \<and> (\<forall>e. sc \<noteq> Crashed e))"
    by (rule impI) (rule welcome_overlay_player)
  from a b c d show ?thesis by (intro conjI)
qed

theorem welcome_overlay_witness:
  "(\<exists>w w' w2. session fresh (MovieArray [clip1, clip2, clip3]) (True, True) [] = Player w
     \<and> on_player showWelcome (App fresh (MovieArray [clip1, clip2, clip3]) (True, True)) = Some True
     \<and> showWelcome w \<and> \<not> fst (hasVisitedBefore fresh) \<and> welcomeTimer w = Some 3000
     \<and> step WithProps (WelcomeTimeout, True, True) w = Inr w'
     \<and> \<not> showWelcome w' \<and> welcomeTimer w' = None \<and> new_ops w w' = [PlayCall True True]
     \<and> Player w2 \<in> set (lifetime (storage w) [(MovieArray [clip1], (True, True), [])])
     \<and> \<not> showWelcome w2)
   \<and> (\<exists>w2. fetchVideos NetworkError = []
     \<and> on_player showWelcome (App fresh NetworkError (True, True)) = None
     \<and> session fresh NetworkError (True, True) [] = NoVideosToDisplay (snd (hasVisitedBefore fresh))
     \<and> snd (hasVisitedBefore fresh) = fresh(''visited'' \<mapsto> ''true'')
     \<and> Player w2 \<in> set (lifetime (snd (hasVisitedBefore fresh)) [(MovieArray [clip1], (True, True), [])])
     \<and> \<not> showWelcome w2)"
proof -
  note s = example_session_start
  let ?r = "MovieArray [clip1, clip2, clip3]"
  let ?w = "\<lparr> videos = [clip1, clip2, clip3], currentIndex = 0, isPlaying = True, showWelcome = True,
       playCount = 0, isMuted = True, shouldUnmute = False,
       videoRef = Some \<lparr>src = ''a.mp4'', muted = True\<rparr>, welcomeTimer = Some 3000, fetchPending = False,
       storage = fresh(''visited'' \<mapsto> ''true''), oplog = [Mounted ''a.mp4'' True, PlayCall True True] \<rparr>"
  let ?w2 = "\<lparr> videos = [clip1], currentIndex = 0, isPlaying = True, showWelcome = False,
       playCount = 0, isMuted = True, shouldUnmute = False,
       videoRef = Some \<lparr>src = ''a.mp4'', muted = True\<rparr>, welcomeTimer = None, fetchPending = False,
       storage = fresh(''visited'' \<mapsto> ''true''), oplog = [Mounted ''a.mp4'' True, PlayCall True True] \<rparr>"
  note t = welcome_overlay[of fresh ?r "(True, True)" "[]" ?w WelcomeTimeout "(True, True)"]
  have ne: "fetchVideos ?r \<noteq> []" by (simp add: fetchVideos_def)
  from t ne have o: "on_player showWelcome (App fresh ?r (True, True)) = Some (\<not> fst (hasVisitedBefore fresh))"
    by simp
  from t s have p: "(showWelcome ?w \<longrightarrow> \<not> fst (hasVisitedBefore fresh))
      \<and> (\<exists>w'. step WithProps (WelcomeTimeout, True, True) ?w = Inr w'
             \<and> showWelcome w' = (showWelcome ?w \<and> WelcomeTimeout \<noteq> WelcomeTimeout)
             \<and> (showWelcome ?w \<and> WelcomeTimeout = WelcomeTimeout \<longrightarrow>
                   welcomeTimer w' = None \<and> new_ops ?w w' = attempt_ops (el_muted ?w) (True, True)))
      \<and> (\<forall>ss. \<forall>sc \<in> set (lifetime (storage ?w) ss).
              (\<forall>w2. sc = Player w2 \<longrightarrow> \<not> showWelcome w2) \<and> (\<forall>e. sc \<noteq> Crashed e))"
    by blast
  have m: "Player ?w2 \<in> set (lifetime (storage ?w) [(MovieArray [clip1], (True, True), [])])"
    using example_later_session by simp
  from p obtain w' where
    a: "step WithProps (WelcomeTimeout, True, True) ?w = Inr w'"
    and b: "\<not> showWelcome w'" "welcomeTimer w' = None" "new_ops ?w w' = attempt_ops (el_muted ?w) (True, True)"
    by auto
  have c: "new_ops ?w w' = [PlayCall True True]"
    using b(3) by (simp add: attempt_ops_def el_muted_def)
  from p have h: "\<not> fst (hasVisitedBefore fresh)" by simp
  from p m have n: "\<not> showWelcome ?w2" by blast
  have o': "on_player showWelcome (App fresh ?r (True, True)) = Some True" using o h by simp
  have p1: "\<exists>w w' w2. session fresh ?r (True, True) [] = Player w
     \<and> on_player showWelcome (App fresh ?r (True, True)) = Some True
     \<and> showWelcome w \<and> \<not> fst (hasVisitedBefore fresh) \<and> welcomeTimer w = Some 3000
     \<and> step WithProps (WelcomeTimeout, True, True) w = Inr w'
     \<and> \<not> showWelcome w' \<and> welcomeTimer w' = None \<and> new_ops w w' = [PlayCall True True]
     \<and> Player w2 \<in> set (lifetime (storage w) [(MovieArray [clip1], (True, True), [])])
     \<and> \<not> showWelcome w2"
    using s o' a b(1,2) c h m n by (intro exI[of _ ?w] exI[of _ w'] exI[of _ ?w2]) simp
  note u = welcome_overlay[of fresh NetworkError "(True, True)" "[]" ?w WelcomeTimeout "(True, True)"]
  have e: "fetchVideos NetworkError = []" by (simp add: fetchVideos_def)
  have sv: "snd (hasVisitedBefore fresh) = fresh(''visited'' \<mapsto> ''true'')"
    by (simp add: hasVisitedBefore_def isFirstVisit_def falsy_def fresh_def)
  from u e have q: "on_player showWelcome (App fresh NetworkError (True, True)) = None"
    and q2: "session fresh NetworkError (True, True) [] = NoVideosToDisplay (snd (hasVisitedBefore fresh))"
    and q3: "\<forall>ss. \<forall>sc \<in> set (lifetime (snd (hasVisitedBefore fresh)) ss).
              (\<forall>w2. sc = Player w2 \<longrightarrow> \<not> showWelcome w2) \<and> (\<forall>e. sc \<noteq> Crashed e)"
    by simp_all
  have m2: "Player ?w2 \<in> set (lifetime (snd (hasVisitedBefore fresh)) [(MovieArray [clip1], (True, True), [])])"
    unfolding sv using example_later_session by simp
  from q3 m2 have n2: "\<not> showWelcome ?w2" by blast
  have p2: "\<exists>w2. fetchVideos NetworkError = []
     \<and> on_player showWelcome (App fresh NetworkError (True, True)) = None
     \<and> session fresh NetworkError (True, True) [] = NoVideosToDisplay (snd (hasVisitedBefore fresh))
     \<and> snd (hasVisitedBefore fresh) = fresh(''visited'' \<mapsto> ''true'')
     \<and> Player w2 \<in> set (lifetime (snd (hasVisitedBefore fresh)) [(MovieArray [clip1], (True, True), [])])
     \<and> \<not> showWelcome w2"
    using e q q2 sv m2 n2 by (intro exI[of _ ?w2] conjI)
  from p1 p2 show ?thesis by (rule conjI)
qed

text \<open>
  Claim C5 as stated has the overlay show whenever \<^verbatim>\<open>hasVisitedBefore()\<close> returned false.
  On a first visit whose fetch fails, the call returns false and writes the marker, the
  application mounts no player and shows no overlay; in the next session, now with clips,
  the marker is there and the overlay does not show either.
\<close>

theorem welcome_overlay_iff_counterexample:
  "fst (hasVisitedBefore fresh) = False
   \<and> on_player showWelcome (App fresh NetworkError (True, True)) = None
   \<and> map (on_player showWelcome)
         (lifetime fresh [(NetworkError, (True, True), []),
                          (MovieArray [clip1, clip2, clip3], (True, True), [])])
       = [None, Some False]"
  by (simp add: eval_defs hasVisitedBefore_def)

text \<open>
  Claim C6, as the code has it. The player issues its first Play Attempt as it mounts,
  on an element created with \<^verbatim>\<open>autoPlay\<close>, whether or not the welcome overlay is showing;
  the play effect does not look at \<^verbatim>\<open>showWelcome\<close>. Whenever the timer then dismisses a
  showing overlay, one further Play Attempt is issued.
\<close>

theorem autoplay_at_mount:
  assumes "session st r oks0 inps = Player w"
  shows "(\<exists>w0. App st r oks0 = Player w0 \<and> showWelcome w0 = fst (isFirstVisit st)
            \<and> oplog w0 = Mounted (url (fetchVideos r ! 0)) True # attempt_ops True oks0)
     \<and> (showWelcome w \<longrightarrow>
          (\<exists>w'. step WithProps (WelcomeTimeout, oks) w = Inr w' \<and> \<not> showWelcome w'
             \<and> new_ops w w' = attempt_ops (el_muted w) oks))"
proof -
  from assms obtain w0 where ne: "fetchVideos r \<noteq> []" and p: "App st r oks0 = Player w0"
    and i: "inv w"
    by (rule session_PlayerD)
  from App_Player[OF ne, of st oks0] p have
    a: "\<exists>w0. App st r oks0 = Player w0 \<and> showWelcome w0 = fst (isFirstVisit st)
            \<and> oplog w0 = Mounted (url (fetchVideos r ! 0)) True # attempt_ops True oks0"
    by auto
  have b: "showWelcome w \<longrightarrow>
          (\<exists>w'. step WithProps (WelcomeTimeout, oks) w = Inr w' \<and> \<not> showWelcome w'
             \<and> new_ops w w' = attempt_ops (el_muted w) oks)"
  proof
    assume "showWelcome w"
    from step_timeout[OF i this, of oks] obtain w' where
      "step WithProps (WelcomeTimeout, oks) w = Inr w'" "\<not> showWelcome w'"
      "oplog w' = oplog w @ attempt_ops (el_muted w) oks"
      by blast
    then show "\<exists>w'. step WithProps (WelcomeTimeout, oks) w = Inr w' \<and> \<not> showWelcome w'
             \<and> new_ops w w' = attempt_ops (el_muted w) oks"
      using new_ops_append by blast
  qed
  from a b show ?thesis by blast
qed

theorem autoplay_at_mount_witness:
  "\<exists>w w'. session fresh (MovieArray [clip1, clip2, clip3]) (True, True) [] = Player w
     \<and> App fresh (MovieArray [clip1, clip2, clip3]) (True, True) = Player w
     \<and> showWelcome w \<and> oplog w = [Mounted ''a.mp4'' True, PlayCall True True]
     \<and> step WithProps (WelcomeTimeout, False, True) w = Inr w' \<and> \<not> showWelcome w'
     \<and> new_ops w w' = [PlayCall True False, SetMuted, PlayCall True True]"
proof -
  note s = example_session_start
  let ?w = "\<lparr> videos = [clip1, clip2, clip3], currentIndex = 0, isPlaying = True, showWelcome = True,
       playCount = 0, isMuted = True, shouldUnmute = False,
       videoRef = Some \<lparr>src = ''a.mp4'', muted = True\<rparr>, welcomeTimer = Some 3000, fetchPending = False,
       storage = fresh(''visited'' \<mapsto> ''true''), oplog = [Mounted ''a.mp4'' True, PlayCall True True] \<rparr>"
  note t = autoplay_at_mount[OF s, of "(False, True)"]
  from t have a: "App fresh (MovieArray [clip1, clip2, clip3]) (True, True) = Player ?w"
    using s by (auto simp: session_def split: screen.splits sum.splits)
  from t obtain w' where
    b: "step WithProps (WelcomeTimeout, False, True) ?w = Inr w'" "\<not> showWelcome w'"
       "new_ops ?w w' = attempt_ops (el_muted ?w) (False, True)"
    by auto
  have c: "new_ops ?w w' = [PlayCall True False, SetMuted, PlayCall True True]"
    using b(3) by (simp add: attempt_ops_def el_muted_def)
  show ?thesis
    using s a b(1,2) c by (intro exI[of _ ?w] exI[of _ w']) simp
qed

text \<open>
  Claim C6 as stated has no autoplay attempt while the overlay shows. On a first visit
  the overlay is showing right after mount and \<^verbatim>\<open>play()\<close> has already been called.
\<close>

theorem autoplay_deferred_counterexample:
  "on_player showWelcome (session fresh (MovieArray [clip1, clip2, clip3]) (True, True) []) = Some True
   \<and> on_player oplog (session fresh (MovieArray [clip1, clip2, clip3]) (True, True) [])
       = Some [Mounted ''a.mp4'' True, PlayCall True True]"
  by (simp add: example_session_start on_player_def)

lemma standalone_mount:
  "MoviePlayer_standalone st oks =
     Inr ((initialState [] (fst (isFirstVisit st)) (snd (isFirstVisit st)))
            \<lparr>fetchPending := True,
             welcomeTimer := (if fst (isFirstVisit st) then Some 3000 else None)\<rparr>)"
  by (simp add: MoviePlayer_standalone_def render_def mountEffects_def playEffect_def welcomeEffect_def
      initialState_def Let_def split: prod.splits)

text \<open>
  Claim C7 fails on the stand-alone player. Its \<^verbatim>\<open>keydown\<close> listener is registered while
  the clip list is empty (the early \<^verbatim>\<open>return\<close> of the placeholder comes after the hooks),
  so with the list empty, before the fetch answers or after it failed, the left arrow
  sets \<^verbatim>\<open>currentIndex\<close> to \<open>-1\<close>: \<^verbatim>\<open>handleNavigation\<close> computes \<^verbatim>\<open>videos.length - 1\<close> with
  a length of \<open>0\<close>. Nothing is played. When clips arrive after that, the render reads
  \<^verbatim>\<open>videos[-1].url\<close> and throws. The application itself mounts no player for an empty list
  (lemma \<open>session_NoVideos\<close>), so there the claim holds.
\<close>

theorem standalone_negative_index:
  "map_sum id videos (standalone_session st oks []) = Inr []
   \<and> map_sum id currentIndex (standalone_session st oks []) = Inr 0
   \<and> map_sum id videos (standalone_session st oks [(KeyDown ArrowLeft, oks1)]) = Inr []
   \<and> map_sum id currentIndex (standalone_session st oks [(KeyDown ArrowLeft, oks1)]) = Inr (- 1)
   \<and> map_sum id oplog (standalone_session st oks [(KeyDown ArrowLeft, oks1)]) = Inr []
   \<and> map_sum id videos
        (standalone_session st oks [(FetchDone NetworkError, oks1), (KeyDown ArrowLeft, oks2)]) = Inr []
   \<and> map_sum id currentIndex
        (standalone_session st oks [(FetchDone NetworkError, oks1), (KeyDown ArrowLeft, oks2)]) = Inr (- 1)
   \<and> standalone_session st oks
        [(KeyDown ArrowLeft, oks1), (FetchDone (StatusObject ''success'' (c # cs)), oks2)]
       = Inl TypeError"
  by (simp add: standalone_session_def standalone_mount step_def enabled_def handler_def
      handleKeyPress_def handleNavigation_def commit_def render_def effects_def playEffect_def
      welcomeEffect_def initialState_def fetchDone_def Let_def)

lemma hasVisitedBefore_marked:
  assumes "\<not> falsy (st ''visited'')"
  shows "hasVisitedBefore_calls k st = (replicate k True, st)"
  using assms by (induction k) (simp_all add: hasVisitedBefore_def isFirstVisit_def)

text \<open>
  Claim C8. On a storage without the \<^verbatim>\<open>visited\<close> key the first call of
  \<^verbatim>\<open>hasVisitedBefore()\<close> returns false and writes \<^verbatim>\<open>visited = "true"\<close>; of any number of calls
  one after the other only the first returns false, and the storage after them is the one
  the first call left. After one call on any storage every further call returns true and
  writes nothing. The same holds of calls made on the storage of any state a session has
  reached, so no event of the player undoes the marker.
\<close>

theorem hasVisitedBefore_once:
  "(st ''visited'' = None \<longrightarrow>
      hasVisitedBefore st = (False, st(''visited'' \<mapsto> ''true''))
      \<and> hasVisitedBefore_calls (Suc k) st = (False # replicate k True, st(''visited'' \<mapsto> ''true'')))
   \<and> hasVisitedBefore_calls k (snd (hasVisitedBefore st)) = (replicate k True, snd (hasVisitedBefore st))
   \<and> (session st r oks inps = Player w \<longrightarrow>
        hasVisitedBefore_calls k (storage w) = (replicate k True, storage w))"
proof -
  have m: "\<not> falsy ((st(''visited'' \<mapsto> ''true'')) ''visited'')" by (simp add: falsy_def)
  have a: "st ''visited'' = None \<longrightarrow>
      hasVisitedBefore st = (False, st(''visited'' \<mapsto> ''true''))
      \<and> hasVisitedBefore_calls (Suc k) st = (False # replicate k True, st(''visited'' \<mapsto> ''true''))"
    using hasVisitedBefore_marked[of "st(''visited'' \<mapsto> ''true'')" k, OF m]
    by (simp add: hasVisitedBefore_def isFirstVisit_def falsy_def)
  have n: "\<not> falsy (snd (hasVisitedBefore st) ''visited'')"
    by (simp add: hasVisitedBefore_def isFirstVisit_def falsy_def Let_def split: option.splits)
  have b: "hasVisitedBefore_calls k (snd (hasVisitedBefore st)) = (replicate k True, snd (hasVisitedBefore st))"
    by (rule hasVisitedBefore_marked[of "snd (hasVisitedBefore st)" k, OF n])
  have c: "session st r oks inps = Player w \<longrightarrow>
        hasVisitedBefore_calls k (storage w) = (replicate k True, storage w)"
  proof
    assume "session st r oks inps = Player w"
    then have "inv w" by (rule session_inv)
    then have "\<not> falsy (storage w ''visited'')" by (rule invD(6))
    then show "hasVisitedBefore_calls k (storage w) = (replicate k True, storage w)"
      by (rule hasVisitedBefore_marked[of "storage w" k])
  qed
  from a b c show ?thesis by blast
qed

theorem hasVisitedBefore_once_witness:
  "fresh ''visited'' = None
   \<and> hasVisitedBefore fresh = (False, fresh(''visited'' \<mapsto> ''true''))
   \<and> hasVisitedBefore_calls 3 fresh = ([False, True, True], fresh(''visited'' \<mapsto> ''true''))
   \<and> (\<exists>w. session fresh (MovieArray [clip1, clip2, clip3]) (True, True) [] = Player w
         \<and> hasVisitedBefore_calls 2 (storage w) = ([True, True], storage w))"
proof -
  have f: "fresh ''visited'' = None" by (simp add: fresh_def)
  note s = example_session_start
  let ?w = "\<lparr> videos = [clip1, clip2, clip3], currentIndex = 0, isPlaying = True, showWelcome = True,
       playCount = 0, isMuted = True, shouldUnmute = False,
       videoRef = Some \<lparr>src = ''a.mp4'', muted = True\<rparr>, welcomeTimer = Some 3000, fetchPending = False,
       storage = fresh(''visited'' \<mapsto> ''true''), oplog = [Mounted ''a.mp4'' True, PlayCall True True] \<rparr>"
  note t = hasVisitedBefore_once[of fresh 2 "MovieArray [clip1, clip2, clip3]" "(True, True)" "[]" ?w]
  have r: "replicate 2 True = [True, True]" by (simp add: numeral_2_eq_2)
  have n: "(3::nat) = Suc 2" by simp
  from t f have a: "hasVisitedBefore fresh = (False, fresh(''visited'' \<mapsto> ''true''))"
    and b: "hasVisitedBefore_calls (Suc 2) fresh = (False # replicate 2 True, fresh(''visited'' \<mapsto> ''true''))"
    by blast+
  from t s have c: "hasVisitedBefore_calls 2 (storage ?w) = (replicate 2 True, storage ?w)"
    by blast
  have b': "hasVisitedBefore_calls 3 fresh = ([False, True, True], fresh(''visited'' \<mapsto> ''true''))"
    using b unfolding n r .
  have c': "hasVisitedBefore_calls 2 (storage ?w) = ([True, True], storage ?w)"
    using c unfolding r .
  from f a b' s c' show ?thesis by blast
qed

text \<open>
  Claim C10. In every state of every session: the unmute control can be clicked only
  while \<^verbatim>\<open>isMuted\<close> and \<^verbatim>\<open>shouldUnmute\<close> both hold; \<^verbatim>\<open>shouldUnmute\<close> holds exactly when
  the storage held \<^verbatim>\<open>videoMuted = "false"\<close> as the session started; and the stored
  \<^verbatim>\<open>videoMuted\<close> is what it was as the session started. So a session that started
  without that value never stores it: throughout, \<^verbatim>\<open>isMuted\<close> is true, the element is
  muted, the unmute control is absent, and a click on it, could it happen, changes
  nothing.
\<close>

theorem no_unmute_without_stored_preference:
  assumes "session st r oks0 inps = Player w"
  shows "(enabled WithProps UnmuteClick w \<longrightarrow> isMuted w \<and> shouldUnmute w)
     \<and> shouldUnmute w = (st ''videoMuted'' = Some ''false'')
     \<and> storage w ''videoMuted'' = st ''videoMuted''
     \<and> (st ''videoMuted'' \<noteq> Some ''false'' \<longrightarrow>
          isMuted w \<and> el_muted w \<and> \<not> enabled WithProps UnmuteClick w
          \<and> (\<exists>w'. step WithProps (UnmuteClick, oks) w = Inr w' \<and> isMuted w' \<and> storage w' = storage w))"
proof -
  from assms obtain w0 where ne: "fetchVideos r \<noteq> []" and p: "App st r oks0 = Player w0"
    and e: "evolves w0 w" and i: "inv w"
    by (rule session_PlayerD)
  from App_Player[OF ne, of st oks0] p have
    f: "shouldUnmute w0 = shouldUnmute_init st" "storage w0 = snd (isFirstVisit st)"
    by auto
  have a: "enabled WithProps UnmuteClick w \<longrightarrow> isMuted w \<and> shouldUnmute w"
    by (simp add: enabled_def)
  have b: "shouldUnmute w = (st ''videoMuted'' = Some ''false'')"
    by (rule session_shouldUnmute[OF assms])
  have s0: "storage w0 ''videoMuted'' = st ''videoMuted''"
    using f(2) by (simp add: isFirstVisit_facts)
  have c: "storage w ''videoMuted'' = st ''videoMuted''"
  proof (cases "st ''videoMuted'' = Some ''false''")
    case True
    then show ?thesis using evolvesD(8)[OF e] s0 by auto
  next
    case False
    then show ?thesis by (rule session_muted_without_preference(3)[OF assms])
  qed
  have d: "st ''videoMuted'' \<noteq> Some ''false'' \<longrightarrow>
          isMuted w \<and> el_muted w \<and> \<not> enabled WithProps UnmuteClick w
          \<and> (\<exists>w'. step WithProps (UnmuteClick, oks) w = Inr w' \<and> isMuted w' \<and> storage w' = storage w)"
  proof
    assume h: "st ''videoMuted'' \<noteq> Some ''false''"
    note q = session_muted_without_preference[OF assms h]
    have n: "\<not> shouldUnmute w" using b h by simp
    then have en: "\<not> enabled WithProps UnmuteClick w" by (simp add: enabled_def)
    then have "step WithProps (UnmuteClick, oks) w = Inr w" by (simp add: step_def)
    then show "isMuted w \<and> el_muted w \<and> \<not> enabled WithProps UnmuteClick w
          \<and> (\<exists>w'. step WithProps (UnmuteClick, oks) w = Inr w' \<and> isMuted w' \<and> storage w' = storage w)"
      using q(1,2) en by blast
  qed
  from a b c d show ?thesis by blast
qed

theorem no_unmute_without_stored_preference_witness:
  "\<exists>w. session fresh (MovieArray [clip1, clip2, clip3]) (True, True) [] = Player w
     \<and> fresh ''videoMuted'' \<noteq> Some ''false''
     \<and> \<not> shouldUnmute w \<and> isMuted w \<and> el_muted w \<and> storage w ''videoMuted'' = None
     \<and> \<not> enabled WithProps UnmuteClick w"
proof -
  note s = example_session_start
  have f: "fresh ''videoMuted'' \<noteq> Some ''false''" "fresh ''videoMuted'' = None"
    by (simp_all add: fresh_def)
  from no_unmute_without_stored_preference[OF s, of "(True, True)"] f show ?thesis
    using s by auto
qed

end
